theory Spec2Isabelle
  imports Complex_Main
begin

section \<open>Helsinki multi-vehicle routing script: data loading and matrices\<close>

text \<open>
  The script \<^verbatim>\<open>helsinki_vrp_portfolio.py\<close> loads a table of sites, builds a distance
  and a travel-time matrix with the haversine formula, declares a routing model with a
  Capacity and a Time dimension, asks the routing library for a solution and walks the
  solution into per-vehicle dictionaries.

  Python exceptions are values of \<open>error\<close>. The coordinates and distances are Python
  floats; their arithmetic is kept abstract: a \<open>float_ops\<close> record holds the primitive
  operations the script applies to floats, over a type \<open>'f\<close> of float values. The
  operations of the \<^verbatim>\<open>math\<close> module that raise on part of their domain (and
  \<^verbatim>\<open>**\<close> and \<^verbatim>\<open>round\<close>) return \<open>error + _\<close>. \<open>CPSolverFail\<close> is the
  exception the library's Python wrapper raises when a constraint fails outside a search,
  and \<open>LibraryAbort\<close> is the library ending the program on a failed internal check.
\<close>

datatype error = ValueError | OverflowError | IndexError | CPSolverFail | LibraryAbort

record 'f float_ops =
  math_radians :: "'f \<Rightarrow> 'f"
  math_sin :: "'f \<Rightarrow> error + 'f"
  math_cos :: "'f \<Rightarrow> error + 'f"
  math_asin :: "'f \<Rightarrow> error + 'f"
  math_sqrt :: "'f \<Rightarrow> error + 'f"
  f_of_int :: "int \<Rightarrow> 'f"
  f_add :: "'f \<Rightarrow> 'f \<Rightarrow> 'f"
  f_sub :: "'f \<Rightarrow> 'f \<Rightarrow> 'f"
  f_mul :: "'f \<Rightarrow> 'f \<Rightarrow> 'f"
  f_div :: "'f \<Rightarrow> 'f \<Rightarrow> 'f"
  f_pow :: "'f \<Rightarrow> int \<Rightarrow> error + 'f"
  py_round :: "'f \<Rightarrow> error + int"

text \<open>Sequencing of computations that may raise: the first exception wins.\<close>

definition and_then :: "error + 'a \<Rightarrow> ('a \<Rightarrow> error + 'b) \<Rightarrow> error + 'b" where
  "and_then m f = (case m of Inl e \<Rightarrow> Inl e | Inr x \<Rightarrow> f x)"

text \<open>Reading a list at an index raises \<open>IndexError\<close> out of range.\<close>

definition py_nth :: "'a list \<Rightarrow> nat \<Rightarrow> error + 'a" where
  "py_nth xs i = (if i < length xs then Inr (xs ! i) else Inl IndexError)"

text \<open>
  The library takes integers as 64-bit values: a Python integer outside that range
  raises \<open>OverflowError\<close> when it is handed over.
\<close>

definition int64 :: "int \<Rightarrow> error + int" where
  "int64 x = (if - (2 ^ 63) \<le> x \<and> x < 2 ^ 63 then Inr x else Inl OverflowError)"

text \<open>
  \<^verbatim>\<open>haversine(lat1, lon1, lat2, lon2)\<close>, lines 30-37, in the evaluation order of the
  Python expression. The integer operands \<^verbatim>\<open>2\<close> and \<^verbatim>\<open>R = 6371\<close> are converted
  to floats by the mixed operations.
\<close>

definition haversine :: "'f float_ops \<Rightarrow> 'f \<Rightarrow> 'f \<Rightarrow> 'f \<Rightarrow> 'f \<Rightarrow> error + 'f" where
  "haversine ops lat1 lon1 lat2 lon2 =
     (let R = 6371;
          lat1 = math_radians ops lat1; lon1 = math_radians ops lon1;
          lat2 = math_radians ops lat2; lon2 = math_radians ops lon2;
          dlat = f_sub ops lat2 lat1;
          dlon = f_sub ops lon2 lon1
      in and_then (math_sin ops (f_div ops dlat (f_of_int ops 2))) (\<lambda>s1.
         and_then (f_pow ops s1 2) (\<lambda>p1.
         and_then (math_cos ops lat1) (\<lambda>c1.
         and_then (math_cos ops lat2) (\<lambda>c2.
         and_then (math_sin ops (f_div ops dlon (f_of_int ops 2))) (\<lambda>s2.
         and_then (f_pow ops s2 2) (\<lambda>p2.
         let a = f_add ops p1 (f_mul ops (f_mul ops c1 c2) p2) in
         and_then (math_sqrt ops a) (\<lambda>r.
         and_then (math_asin ops r) (\<lambda>as.
         let c = f_mul ops (f_of_int ops 2) as in
         Inr (f_mul ops (f_of_int ops R) c))))))))))"

text \<open>
  The entries of \<^verbatim>\<open>dist_matrix\<close> are the integer \<^verbatim>\<open>0\<close> the matrix is created with,
  or a float written by the loop.
\<close>

datatype 'f pynum = PyInt int | PyFloat 'f

text \<open>
  The table read from the CSV file, one record per row, and the columns the script takes
  from it (lines 13-25).
\<close>

record 'f csv_row =
  city :: string
  lat :: 'f
  lon :: 'f
  demand :: int
  tw_start :: int
  tw_end :: int

record 'f problem_instance =
  cities :: "string list"
  lats :: "'f list"
  lons :: "'f list"
  demands :: "int list"
  time_windows :: "(int \<times> int) list"

definition load_data :: "'f csv_row list \<Rightarrow> 'f problem_instance" where
  "load_data df =
     \<lparr> cities = map city df, lats = map lat df, lons = map lon df,
       demands = map demand df,
       time_windows = zip (map tw_start df) (map tw_end df) \<rparr>"

definition num_nodes :: "'f problem_instance \<Rightarrow> nat" where
  "num_nodes inst = length (cities inst)"

definition depot_index :: nat where
  "depot_index = 0"

definition num_vehicles :: nat where
  "num_vehicles = 3"

definition vehicle_capacities :: "int list" where
  "vehicle_capacities = [15, 15, 15]"

subsection \<open>Distance and time matrices (lines 40-49)\<close>

text \<open>
  The two matrices are lists of rows, each row a list of its own (the comprehension
  creates one row object per index). The inner loop over \<open>j\<close> and the outer loop over
  \<open>i\<close> update them in place; an exception in \<^verbatim>\<open>haversine\<close> or \<^verbatim>\<open>round\<close> ends the
  program.
\<close>

type_synonym 'f matrices = "'f pynum list list \<times> int list list"

text \<open>The assignment \<^verbatim>\<open>m[i][j] = v\<close>: both subscripts raise out of range.\<close>

definition set_entry :: "'a list list \<Rightarrow> nat \<Rightarrow> nat \<Rightarrow> 'a \<Rightarrow> error + 'a list list" where
  "set_entry m i j v =
     (if i < length m \<and> j < length (m ! i) then Inr (m[i := (m ! i)[j := v]])
      else Inl IndexError)"

fun matrix_inner_loop ::
  "'f float_ops \<Rightarrow> 'f list \<Rightarrow> 'f list \<Rightarrow> nat \<Rightarrow> nat list \<Rightarrow> 'f matrices \<Rightarrow> error + 'f matrices" where
  "matrix_inner_loop ops las los i [] ms = Inr ms"
| "matrix_inner_loop ops las los i (j # js) (dist_matrix, time_matrix) =
     (if i = j then matrix_inner_loop ops las los i js (dist_matrix, time_matrix)
      else
        and_then (py_nth las i) (\<lambda>lat_i.
        and_then (py_nth los i) (\<lambda>lon_i.
        and_then (py_nth las j) (\<lambda>lat_j.
        and_then (py_nth los j) (\<lambda>lon_j.
        and_then (haversine ops lat_i lon_i lat_j lon_j) (\<lambda>d.
        and_then (set_entry dist_matrix i j (PyFloat d)) (\<lambda>dist_matrix.
        and_then (py_round ops (f_mul ops d (f_of_int ops 2))) (\<lambda>t.
        and_then (set_entry time_matrix i j t) (\<lambda>time_matrix.
        matrix_inner_loop ops las los i js (dist_matrix, time_matrix))))))))))"

fun matrix_outer_loop ::
  "'f float_ops \<Rightarrow> 'f list \<Rightarrow> 'f list \<Rightarrow> nat \<Rightarrow> nat list \<Rightarrow> 'f matrices \<Rightarrow> error + 'f matrices" where
  "matrix_outer_loop ops las los n [] ms = Inr ms"
| "matrix_outer_loop ops las los n (i # rest) ms =
     and_then (matrix_inner_loop ops las los i [0..<n] ms)
       (matrix_outer_loop ops las los n rest)"

definition build_matrices :: "'f float_ops \<Rightarrow> 'f problem_instance \<Rightarrow> error + 'f matrices" where
  "build_matrices ops inst =
     (let n = num_nodes inst;
          dist_matrix = replicate n (replicate n (PyInt 0));
          time_matrix = replicate n (replicate n 0)
      in matrix_outer_loop ops (lats inst) (lons inst) n [0..<n] (dist_matrix, time_matrix))"

subsection \<open>Laws of the float operations\<close>

text \<open>
  What the symmetry and the sign of the matrices rest on, as laws of the primitive
  operations. \<open>opposite a b\<close> says that \<open>b\<close> is the negation of \<open>a\<close> (a zero is
  opposite to a zero of either sign), \<open>nonneg x\<close> is the comparison \<^verbatim>\<open>x >= 0\<close>, and
  \<open>nan x\<close> says that \<open>x\<close> is not a number. Subtraction in the other order gives the
  opposite, division keeps opposites, the sine is odd, the square of opposites is the
  same float, multiplication commutes; a square root is not negative, the arc sine and
  the product with a positive integer keep the sign, all three pass a not-a-number on,
  and \<^verbatim>\<open>round\<close> raises on a not-a-number and keeps the sign.
\<close>

definition float_laws ::
  "'f float_ops \<Rightarrow> ('f \<Rightarrow> 'f \<Rightarrow> bool) \<Rightarrow> ('f \<Rightarrow> bool) \<Rightarrow> ('f \<Rightarrow> bool) \<Rightarrow> bool" where
  "float_laws ops opposite nonneg nan =
     ((\<forall>x y. opposite (f_sub ops x y) (f_sub ops y x))
      \<and> (\<forall>a b z. opposite a b \<longrightarrow> opposite (f_div ops a z) (f_div ops b z))
      \<and> (\<forall>a b. opposite a b \<longrightarrow>
            (case math_sin ops a of
               Inl e \<Rightarrow> math_sin ops b = Inl e
             | Inr s \<Rightarrow> (\<exists>s'. math_sin ops b = Inr s' \<and> opposite s s')))
      \<and> (\<forall>a b. opposite a b \<longrightarrow> f_pow ops a 2 = f_pow ops b 2)
      \<and> (\<forall>x y. f_mul ops x y = f_mul ops y x)
      \<and> (\<forall>x r. math_sqrt ops x = Inr r \<longrightarrow> nonneg r \<or> nan r)
      \<and> (\<forall>r y. math_asin ops r = Inr y \<longrightarrow> (nonneg r \<longrightarrow> nonneg y) \<and> (nan r \<longrightarrow> nan y))
      \<and> (\<forall>k x. 0 < k \<longrightarrow>
            (nonneg x \<longrightarrow> nonneg (f_mul ops (f_of_int ops k) x))
            \<and> (nan x \<longrightarrow> nan (f_mul ops (f_of_int ops k) x)))
      \<and> (\<forall>x t. py_round ops x = Inr t \<longrightarrow> \<not> nan x \<and> (nonneg x \<longrightarrow> 0 \<le> t)))"

text \<open>The comparison \<^verbatim>\<open>>= 0\<close> on an entry of \<^verbatim>\<open>dist_matrix\<close>.\<close>

fun pynum_nonneg :: "('f \<Rightarrow> bool) \<Rightarrow> 'f pynum \<Rightarrow> bool" where
  "pynum_nonneg nonneg (PyInt k) = (0 \<le> k)"
| "pynum_nonneg nonneg (PyFloat x) = nonneg x"

section \<open>The routing model the script declares (lines 54-106)\<close>

text \<open>
  The solver is the routing library the script imports; its code is not part of the
  script. What the script reads from the library's index manager and routing model is a
  record of functions: \<^verbatim>\<open>manager.IndexToNode\<close>, \<^verbatim>\<open>manager.NodeToIndex\<close>,
  \<^verbatim>\<open>routing.Start\<close>, \<^verbatim>\<open>routing.IsEnd\<close>, and the number of indices of the model.
  Indices are the library's internal numbering of visits: one per site, and one more
  start and end per vehicle for the shared depot.
\<close>

record routing =
  IndexToNode :: "nat \<Rightarrow> nat"
  NodeToIndex :: "nat \<Rightarrow> nat"
  Start :: "nat \<Rightarrow> nat"
  IsEnd :: "nat \<Rightarrow> bool"
  num_indices :: nat

text \<open>
  A solution object, as the script reads it: \<^verbatim>\<open>solution.Value(routing.NextVar(index))\<close>
  and \<^verbatim>\<open>solution.Value(time_dim.CumulVar(index))\<close>; the cumulative variable of the
  Capacity dimension is part of the solution as well.
\<close>

record assignment =
  next_value :: "nat \<Rightarrow> nat"
  time_cumul :: "nat \<Rightarrow> int"
  capacity_cumul :: "nat \<Rightarrow> int"

text \<open>
  A dimension as declared by \<^verbatim>\<open>AddDimension(evaluator, slack_max, capacity,
  fix_start_cumul_to_zero, name)\<close> and \<^verbatim>\<open>AddDimensionWithVehicleCapacity\<close>: the
  transit callback, the largest slack, the capacity per vehicle, the flag, and the range
  of each index's cumulative variable (narrowed by \<^verbatim>\<open>SetRange\<close>).
\<close>

record dimension =
  transit :: "nat \<Rightarrow> nat \<Rightarrow> int"
  slack_max :: int
  capacities :: "int list"
  fix_start_cumul_to_zero :: bool
  cumul_range :: "nat \<Rightarrow> int \<times> int"

datatype FirstSolutionStrategy = AUTOMATIC | PATH_CHEAPEST_ARC

datatype LocalSearchMetaheuristic = AUTOMATIC_SEARCH | GUIDED_LOCAL_SEARCH

record search_parameters =
  first_solution_strategy :: FirstSolutionStrategy
  local_search_metaheuristic :: LocalSearchMetaheuristic
  time_limit_seconds :: int

record routing_model =
  arc_cost :: "nat \<Rightarrow> nat \<Rightarrow> int"
  capacity_dimension :: dimension
  time_dimension :: dimension

definition max_route_duration :: int where
  "max_route_duration = 240"

text \<open>
  The callbacks (lines 57-60 and 66-68). The library calls the time callback during the
  search, on indices of the model. It calls the demand callback already when the
  Capacity dimension is added, so that callback is modelled with its exception.
\<close>

definition time_callback :: "routing \<Rightarrow> int list list \<Rightarrow> nat \<Rightarrow> nat \<Rightarrow> int" where
  "time_callback rt time_matrix from_index to_index =
     (let f = IndexToNode rt from_index; t = IndexToNode rt to_index
      in time_matrix ! f ! t)"

definition demand_callback :: "routing \<Rightarrow> int list \<Rightarrow> nat \<Rightarrow> error + int" where
  "demand_callback rt dem from_index = (let node = IndexToNode rt from_index in py_nth dem node)"

text \<open>
  \<^verbatim>\<open>RoutingIndexManager(num_nodes, num_vehicles, depot_index)\<close>, line 54: the depot has
  to be one of the nodes, otherwise the library ends the program. For a table with at
  least one row the manager and the routing model are created; \<open>rt\<close> stands for them.
\<close>

definition create_manager :: "nat \<Rightarrow> error + unit" where
  "create_manager n = (if depot_index < n then Inr () else Inl LibraryAbort)"

text \<open>
  \<^verbatim>\<open>AddDimensionWithVehicleCapacity\<close>, line 72, evaluates the unary transit callback
  at every index that is not an end and keeps the values as 64-bit integers: an
  exception of the callback, or a value outside the 64-bit range, stops the program
  there.
\<close>

fun unary_transit_loop ::
  "(nat \<Rightarrow> error + int) \<Rightarrow> nat list \<Rightarrow> (nat \<Rightarrow> int) \<Rightarrow> error + (nat \<Rightarrow> int)" where
  "unary_transit_loop callback [] tr = Inr tr"
| "unary_transit_loop callback (index # rest) tr =
     and_then (callback index) (\<lambda>value.
     and_then (int64 value) (\<lambda>value.
     unary_transit_loop callback rest (tr(index := value))))"

definition evaluate_unary_transits ::
  "routing \<Rightarrow> (nat \<Rightarrow> error + int) \<Rightarrow> error + (nat \<Rightarrow> int)" where
  "evaluate_unary_transits rt callback =
     unary_transit_loop callback
       (filter (\<lambda>index. \<not> IsEnd rt index) [0..<num_indices rt]) (\<lambda>index. 0)"

text \<open>
  \<^verbatim>\<open>CumulVar(index).SetRange(l, u)\<close> takes its two arguments as 64-bit integers and
  intersects the variable's range with \<open>[l, u]\<close>. When nothing is left the library
  fails, and outside a search its Python wrapper raises an exception
  (``CP Solver fail'').
\<close>

definition SetRange :: "int \<times> int \<Rightarrow> int \<Rightarrow> int \<Rightarrow> error + int \<times> int" where
  "SetRange cur l u =
     and_then (int64 l) (\<lambda>l.
     and_then (int64 u) (\<lambda>u.
     let lo = max (fst cur) l; hi = min (snd cur) u
     in if hi < lo then Inl CPSolverFail else Inr (lo, hi)))"

text \<open>
  Lines 93-95: the time window of every node, on the node's index. \<open>rg\<close> holds the
  range of the Time dimension's cumulative variable at every index.
\<close>

fun time_window_loop ::
  "routing \<Rightarrow> (nat \<times> int \<times> int) list \<Rightarrow> (nat \<Rightarrow> int \<times> int) \<Rightarrow> error + (nat \<Rightarrow> int \<times> int)" where
  "time_window_loop rt [] rg = Inr rg"
| "time_window_loop rt ((node_idx, start, end') # ws) rg =
     (let index = NodeToIndex rt node_idx
      in and_then (SetRange (rg index) start end') (\<lambda>d.
         time_window_loop rt ws (rg(index := d))))"

text \<open>Lines 98-100: the start of every vehicle within the route duration.\<close>

fun depot_start_loop ::
  "routing \<Rightarrow> nat list \<Rightarrow> (nat \<Rightarrow> int \<times> int) \<Rightarrow> error + (nat \<Rightarrow> int \<times> int)" where
  "depot_start_loop rt [] rg = Inr rg"
| "depot_start_loop rt (v # vs) rg =
     (let start_index = Start rt v
      in and_then (SetRange (rg start_index) 0 max_route_duration) (\<lambda>d.
         depot_start_loop rt vs (rg(start_index := d))))"

text \<open>
  Both loops, from the ranges the dimension is created with: zero to the dimension's
  capacity at every index.
\<close>

definition declare_time_ranges ::
  "routing \<Rightarrow> (int \<times> int) list \<Rightarrow> error + (nat \<Rightarrow> int \<times> int)" where
  "declare_time_ranges rt tws =
     and_then (time_window_loop rt (enumerate 0 tws) (\<lambda>index. (0, max_route_duration)))
       (depot_start_loop rt [0..<num_vehicles])"

text \<open>
  The Capacity dimension (lines 72-78): the transit values \<open>tr\<close> evaluated from the
  demand callback, no slack, the capacity of each vehicle, start fixed to zero. The
  Time dimension (lines 82-88): up to 30 minutes of waiting, at most
  \<open>max_route_duration\<close> on every vehicle, start not fixed.
\<close>

definition capacity_dim :: "(nat \<Rightarrow> int) \<Rightarrow> dimension" where
  "capacity_dim tr =
     \<lparr> transit = (\<lambda>from_index to_index. tr from_index),
       slack_max = 0,
       capacities = vehicle_capacities,
       fix_start_cumul_to_zero = True,
       cumul_range = (\<lambda>index. (0, Max (set vehicle_capacities))) \<rparr>"

definition time_dim :: "routing \<Rightarrow> int list list \<Rightarrow> (nat \<Rightarrow> int \<times> int) \<Rightarrow> dimension" where
  "time_dim rt time_matrix rg =
     \<lparr> transit = time_callback rt time_matrix,
       slack_max = 30,
       capacities = replicate num_vehicles max_route_duration,
       fix_start_cumul_to_zero = False,
       cumul_range = rg \<rparr>"

definition params :: search_parameters where
  "params =
     \<lparr> first_solution_strategy = PATH_CHEAPEST_ARC,
       local_search_metaheuristic = GUIDED_LOCAL_SEARCH,
       time_limit_seconds = 10 \<rparr>"

text \<open>Everything the script does before it calls the solver (lines 13-106).\<close>

record 'f prepared =
  setup_instance :: "'f problem_instance"
  setup_dist_matrix :: "'f pynum list list"
  setup_time_matrix :: "int list list"
  setup_model :: routing_model

definition problem_setup :: "'f float_ops \<Rightarrow> routing \<Rightarrow> 'f csv_row list \<Rightarrow> error + 'f prepared" where
  "problem_setup ops rt df =
     (let inst = load_data df
      in and_then (build_matrices ops inst) (\<lambda>(dist_matrix, time_matrix).
         and_then (create_manager (num_nodes inst)) (\<lambda>manager.
         and_then (evaluate_unary_transits rt (demand_callback rt (demands inst))) (\<lambda>tr.
         and_then (declare_time_ranges rt (time_windows inst)) (\<lambda>rg.
         Inr \<lparr> setup_instance = inst,
               setup_dist_matrix = dist_matrix,
               setup_time_matrix = time_matrix,
               setup_model =
                 \<lparr> arc_cost = time_callback rt time_matrix,
                   capacity_dimension = capacity_dim tr,
                   time_dimension = time_dim rt time_matrix rg \<rparr> \<rparr>)))))"

section \<open>Solution extraction (lines 108-146)\<close>

text \<open>
  The \<^verbatim>\<open>while not routing.IsEnd(index)\<close> loop follows the next-values of the solution
  from a vehicle's start. Nothing in the script bounds it, so the loop is a partial
  function: \<open>None\<close> is a loop that never ends, \<open>Some (Inl e)\<close> an exception.
\<close>

partial_function (option) route_loop ::
  "routing \<Rightarrow> assignment \<Rightarrow> int list \<Rightarrow> nat \<Rightarrow> nat list \<Rightarrow> int list \<Rightarrow> int
     \<Rightarrow> (error + nat \<times> nat list \<times> int list \<times> int) option" where
  "route_loop rt sol dem index route_nodes route_times total_load =
     (if IsEnd rt index then Some (Inr (index, route_nodes, route_times, total_load))
      else
        let node = IndexToNode rt index;
            time_val = time_cumul sol index
        in case py_nth dem node of
             Inl e \<Rightarrow> Some (Inl e)
           | Inr d \<Rightarrow>
               route_loop rt sol dem (next_value sol index)
                 (route_nodes @ [node]) (route_times @ [time_val]) (total_load + d))"

text \<open>
  The body of the loop over the vehicles up to the test on the route's length: the nodes
  of the route with the final depot, the times at them, and the load.
\<close>

definition extract_route ::
  "routing \<Rightarrow> assignment \<Rightarrow> int list \<Rightarrow> nat \<Rightarrow> (error + nat list \<times> int list \<times> int) option" where
  "extract_route rt sol dem v =
     (case route_loop rt sol dem (Start rt v) [] [] 0 of
        None \<Rightarrow> None
      | Some (Inl e) \<Rightarrow> Some (Inl e)
      | Some (Inr (index, route_nodes, route_times, total_load)) \<Rightarrow>
          (let node = IndexToNode rt index;
               time_val = time_cumul sol index
           in Some (Inr (route_nodes @ [node], route_times @ [time_val], total_load))))"

record dictionaries =
  vehicle_routes :: "nat \<rightharpoonup> nat list"
  vehicle_times :: "nat \<rightharpoonup> int list"
  vehicle_loads :: "nat \<rightharpoonup> int"

fun vehicle_loop ::
  "routing \<Rightarrow> assignment \<Rightarrow> int list \<Rightarrow> nat list \<Rightarrow> dictionaries \<Rightarrow> (error + dictionaries) option" where
  "vehicle_loop rt sol dem [] out = Some (Inr out)"
| "vehicle_loop rt sol dem (v # vs) out =
     (case extract_route rt sol dem v of
        None \<Rightarrow> None
      | Some (Inl e) \<Rightarrow> Some (Inl e)
      | Some (Inr (route_nodes, route_times, total_load)) \<Rightarrow>
          vehicle_loop rt sol dem vs
            (if length route_nodes > 2
             then \<lparr> vehicle_routes = (vehicle_routes out)(v \<mapsto> route_nodes),
                    vehicle_times = (vehicle_times out)(v \<mapsto> route_times),
                    vehicle_loads = (vehicle_loads out)(v \<mapsto> total_load) \<rparr>
             else out))"

text \<open>
  What the script has when the extraction is over: an exception, the message of the
  no-solution branch followed by \<^verbatim>\<open>exit()\<close>, or the three dictionaries. The rest of
  the script prints and draws the dictionaries.
\<close>

datatype outcome = Raised error | NoSolution "string list" | Extracted dictionaries

definition after_solve ::
  "routing \<Rightarrow> int list \<Rightarrow> assignment option \<Rightarrow> outcome option" where
  "after_solve rt dem solution =
     (case solution of
        None \<Rightarrow> Some (NoSolution [''No solution found.''])
      | Some sol \<Rightarrow>
          (case vehicle_loop rt sol dem [0..<num_vehicles]
                  \<lparr> vehicle_routes = Map.empty, vehicle_times = Map.empty,
                    vehicle_loads = Map.empty \<rparr> of
             None \<Rightarrow> None
           | Some (Inl e) \<Rightarrow> Some (Raised e)
           | Some (Inr out) \<Rightarrow> Some (Extracted out)))"

text \<open>
  The script from the table to the dictionaries. \<open>rt\<close> stands for the index manager
  and the routing model the library creates for the instance (lines 54-55), and
  \<open>solve\<close> for \<^verbatim>\<open>routing.SolveWithParameters\<close>, which returns a solution object or
  nothing.
\<close>

definition program ::
  "'f float_ops \<Rightarrow> routing \<Rightarrow> (routing_model \<Rightarrow> search_parameters \<Rightarrow> assignment option)
     \<Rightarrow> 'f csv_row list \<Rightarrow> outcome option" where
  "program ops rt solve df =
     (case problem_setup ops rt df of
        Inl e \<Rightarrow> Some (Raised e)
      | Inr s \<Rightarrow>
          after_solve rt (demands (setup_instance s)) (solve (setup_model s) params))"

section \<open>Solutions the solver returns\<close>

text \<open>
  What the library guarantees of the index manager for \<open>n\<close> nodes: every index stands
  for a node, the starts and the ends stand for the depot, and a node other than the
  depot has exactly one index.
\<close>

definition index_manager_ok :: "routing \<Rightarrow> nat \<Rightarrow> bool" where
  "index_manager_ok rt n =
     ((\<forall>v < num_vehicles. Start rt v < num_indices rt \<and> IndexToNode rt (Start rt v) = depot_index)
      \<and> (\<forall>i < num_indices rt.
            IndexToNode rt i < n
            \<and> (IsEnd rt i \<longrightarrow> IndexToNode rt i = depot_index)
            \<and> (IndexToNode rt i \<noteq> depot_index \<longrightarrow> NodeToIndex rt (IndexToNode rt i) = i))
      \<and> (\<forall>k < n. NodeToIndex rt k < num_indices rt \<and> IndexToNode rt (NodeToIndex rt k) = k))"

text \<open>
  \<open>follows rt sol i p\<close>: the list \<open>p\<close> is the chain of indices from \<open>i\<close> along the
  next-values up to the first end index.
\<close>

fun follows :: "routing \<Rightarrow> assignment \<Rightarrow> nat \<Rightarrow> nat list \<Rightarrow> bool" where
  "follows rt sol i [] = False"
| "follows rt sol i [j] = (i = j \<and> IsEnd rt j)"
| "follows rt sol i (j # k # p) =
     (i = j \<and> \<not> IsEnd rt j \<and> follows rt sol (next_value sol j) (k # p))"

text \<open>
  The routes of a solution: one chain per vehicle from its start to an end, and every
  index of the model on exactly one of them, once (the script declares no optional
  node).
\<close>

definition routes_ok :: "routing \<Rightarrow> assignment \<Rightarrow> nat list list \<Rightarrow> bool" where
  "routes_ok rt sol paths =
     (length paths = num_vehicles
      \<and> (\<forall>v < num_vehicles. follows rt sol (Start rt v) (paths ! v))
      \<and> distinct (concat paths)
      \<and> set (concat paths) = {..<num_indices rt})"

text \<open>
  A dimension holds along a chain when every step adds the transit and a slack between
  zero and \<open>slack_max\<close>.
\<close>

fun chain_ok :: "dimension \<Rightarrow> (nat \<Rightarrow> int) \<Rightarrow> nat list \<Rightarrow> bool" where
  "chain_ok d cumul (i # j # p) =
     (cumul i + transit d i j \<le> cumul j
      \<and> cumul j \<le> cumul i + transit d i j + slack_max d
      \<and> chain_ok d cumul (j # p))"
| "chain_ok d cumul p = True"

definition dimension_ok :: "dimension \<Rightarrow> (nat \<Rightarrow> int) \<Rightarrow> nat list list \<Rightarrow> bool" where
  "dimension_ok d cumul paths =
     (\<forall>v < length paths.
        (fix_start_cumul_to_zero d \<longrightarrow> cumul (hd (paths ! v)) = 0)
        \<and> chain_ok d cumul (paths ! v)
        \<and> (\<forall>i \<in> set (paths ! v).
              0 \<le> cumul i \<and> cumul i \<le> capacities d ! v
              \<and> fst (cumul_range d i) \<le> cumul i \<and> cumul i \<le> snd (cumul_range d i)))"

text \<open>A solution is feasible for a model when its routes satisfy both dimensions.\<close>

definition feasible :: "routing \<Rightarrow> routing_model \<Rightarrow> assignment \<Rightarrow> nat list list \<Rightarrow> bool" where
  "feasible rt m sol paths =
     (routes_ok rt sol paths
      \<and> dimension_ok (capacity_dimension m) (capacity_cumul sol) paths
      \<and> dimension_ok (time_dimension m) (time_cumul sol) paths)"

section \<open>Inputs of the concrete runs\<close>

text \<open>
  Exact arithmetic as one instance of the float operations: the operations over the
  real numbers, with the domain errors of the \<^verbatim>\<open>math\<close> module and Python's rounding
  of halves to the even neighbour.
\<close>

definition round_half_even :: "real \<Rightarrow> int" where
  "round_half_even x =
     (let f = \<lfloor>x\<rfloor>; r = x - of_int f
      in if r < 1 / 2 then f else if 1 / 2 < r then f + 1
         else if even f then f else f + 1)"

definition exact_ops :: "real float_ops" where
  "exact_ops =
     \<lparr> math_radians = (\<lambda>x. x * pi / 180),
       math_sin = (\<lambda>x. Inr (sin x)),
       math_cos = (\<lambda>x. Inr (cos x)),
       math_asin = (\<lambda>x. if x < - 1 \<or> 1 < x then Inl ValueError else Inr (arcsin x)),
       math_sqrt = (\<lambda>x. if x < 0 then Inl ValueError else Inr (sqrt x)),
       f_of_int = of_int,
       f_add = (+), f_sub = (-), f_mul = (*), f_div = (/),
       f_pow = (\<lambda>x n. Inr (x powi n)),
       py_round = (\<lambda>x. Inr (round_half_even x)) \<rparr>"

text \<open>A table of two sites at the same coordinates.\<close>

definition two_sites :: "real csv_row list" where
  "two_sites =
     [\<lparr> city = ''Depot'', lat = 60, lon = 25, demand = 0, tw_start = 0, tw_end = 240 \<rparr>,
      \<lparr> city = ''Kamppi'', lat = 60, lon = 25, demand = 4, tw_start = 10, tw_end = 120 \<rparr>]"

text \<open>
  The numbering of the library's index manager for \<open>n\<close> nodes and one depot shared
  by all vehicles: index \<open>k\<close> is node \<open>k\<close> for \<open>k < n\<close>, the depot's own index is the
  start of vehicle 0, one further start index follows for every other vehicle, and the
  end indices come last.
\<close>

definition index_layout :: "nat \<Rightarrow> routing" where
  "index_layout n =
     \<lparr> IndexToNode = (\<lambda>i. if i < n then i else depot_index),
       NodeToIndex = (\<lambda>k. k),
       Start = (\<lambda>v. if v = 0 then depot_index else n + v - 1),
       IsEnd = (\<lambda>i. n + num_vehicles - 1 \<le> i),
       num_indices = n + 2 * num_vehicles - 1 \<rparr>"

text \<open>
  A solution for the two sites: vehicle 0 drives depot, Kamppi, depot and arrives at
  Kamppi at minute 10; the other two vehicles stay at the depot.
\<close>

definition two_sites_solution :: assignment where
  "two_sites_solution =
     \<lparr> next_value = (\<lambda>i. if i = 0 then 1 else if i = 1 then 4 else i + 3),
       time_cumul = (\<lambda>i. if i = 1 \<or> i = 4 then 10 else 0),
       capacity_cumul = (\<lambda>i. if i = 4 then 4 else 0) \<rparr>"

definition two_sites_paths :: "nat list list" where
  "two_sites_paths = [[0, 1, 4], [2, 5], [3, 6]]"

text \<open>The same table with a negative demand at the second site.\<close>

definition negative_demand_sites :: "real csv_row list" where
  "negative_demand_sites =
     [\<lparr> city = ''Depot'', lat = 60, lon = 25, demand = 0, tw_start = 0, tw_end = 240 \<rparr>,
      \<lparr> city = ''Kamppi'', lat = 60, lon = 25, demand = - 4, tw_start = 10, tw_end = 120 \<rparr>]"

text \<open>The same table with the time window of the second site inverted.\<close>

definition inverted_window_sites :: "real csv_row list" where
  "inverted_window_sites =
     [\<lparr> city = ''Depot'', lat = 60, lon = 25, demand = 0, tw_start = 0, tw_end = 240 \<rparr>,
      \<lparr> city = ''Kamppi'', lat = 60, lon = 25, demand = 4, tw_start = 120, tw_end = 10 \<rparr>]"

text \<open>
  The malformed instances of the specification's error taxonomy (InvalidInstance), in
  its words: a negative demand, a non-positive capacity, a depot demand other than
  zero, a time window with earliest after latest, or a node whose window cannot be
  reached from the depot within the maximum route duration with no other visit.
\<close>

definition spec_malformed :: "'f problem_instance \<Rightarrow> int list list \<Rightarrow> bool" where
  "spec_malformed inst time_matrix =
     ((\<exists>d \<in> set (demands inst). d < 0)
      \<or> (\<exists>c \<in> set vehicle_capacities. c \<le> 0)
      \<or> (depot_index < num_nodes inst \<and> demands inst ! depot_index \<noteq> 0)
      \<or> (\<exists>w \<in> set (time_windows inst). snd w < fst w)
      \<or> (\<exists>k < num_nodes inst.
            min max_route_duration (snd (time_windows inst ! k))
              < time_matrix ! depot_index ! k))"

section \<open>Properties of the matrices\<close>

lemma and_then_Inr:
  "and_then m f = Inr y \<Longrightarrow> \<exists>x. m = Inr x \<and> f x = Inr y"
  by (cases m) (simp_all add: and_then_def)

text \<open>A write off the diagonal leaves every diagonal entry as it was.\<close>

lemma set_entry_diag:
  assumes "set_entry m i j v = Inr m'" and "i \<noteq> j"
  shows "m' ! k ! k = m ! k ! k"
proof -
  from assms(1) have i: "i < length m" and m': "m' = m[i := (m ! i)[j := v]]"
    by (auto simp: set_entry_def split: if_splits)
  show ?thesis
  proof (cases "k = i")
    case True
    with i m' assms(2) show ?thesis by simp
  next
    case False
    with m' show ?thesis by simp
  qed
qed

lemma matrix_inner_loop_diag:
  "matrix_inner_loop ops las los i js (dm, tm) = Inr (dm', tm') \<Longrightarrow>
     dm' ! k ! k = dm ! k ! k \<and> tm' ! k ! k = tm ! k ! k"
proof (induction js arbitrary: dm tm)
  case Nil
  then show ?case by simp
next
  case (Cons j js)
  show ?case
  proof (cases "i = j")
    case True
    with Cons show ?thesis by simp
  next
    case False
    with Cons.prems obtain d t dm1 tm1 where
      w1: "set_entry dm i j (PyFloat d) = Inr dm1" and
      w2: "set_entry tm i j t = Inr tm1" and
      rest: "matrix_inner_loop ops las los i js (dm1, tm1) = Inr (dm', tm')"
      by (auto dest!: and_then_Inr)
    from Cons.IH [OF rest] set_entry_diag [OF w1 False] set_entry_diag [OF w2 False]
    show ?thesis by simp
  qed
qed

lemma matrix_outer_loop_diag:
  "matrix_outer_loop ops las los n xs (dm, tm) = Inr (dm', tm') \<Longrightarrow>
     dm' ! k ! k = dm ! k ! k \<and> tm' ! k ! k = tm ! k ! k"
proof (induction xs arbitrary: dm tm)
  case Nil
  then show ?case by simp
next
  case (Cons i xs)
  from Cons.prems obtain dm1 tm1 where
    inner: "matrix_inner_loop ops las los i [0..<n] (dm, tm) = Inr (dm1, tm1)" and
    rest: "matrix_outer_loop ops las los n xs (dm1, tm1) = Inr (dm', tm')"
    by (auto dest!: and_then_Inr)
  from matrix_inner_loop_diag [OF inner] Cons.IH [OF rest] show ?case
    by simp
qed

text \<open>
  C7. Whenever the matrix construction completes, every self-arc entry is the zero the
  matrices were created with: \<^verbatim>\<open>dist_matrix[i][i] = 0\<close> and \<^verbatim>\<open>time_matrix[i][i] = 0\<close>
  for every node index \<open>i\<close>.
\<close>

theorem self_arcs_zero:
  assumes "build_matrices ops inst = Inr (dist_matrix, time_matrix)"
    and "i < num_nodes inst"
  shows "dist_matrix ! i ! i = PyInt 0 \<and> time_matrix ! i ! i = 0"
proof -
  let ?n = "num_nodes inst"
  from assms(1) have
    "matrix_outer_loop ops (lats inst) (lons inst) ?n [0..<?n]
       (replicate ?n (replicate ?n (PyInt 0)), replicate ?n (replicate ?n 0))
     = Inr (dist_matrix, time_matrix)"
    by (simp add: build_matrices_def Let_def)
  from matrix_outer_loop_diag [OF this, of i] assms(2) show ?thesis
    by simp
qed

subsection \<open>Symmetry and sign\<close>


lemma haversine_Inr:
  assumes "haversine ops lat1 lon1 lat2 lon2 = Inr x"
  obtains s1 p1 c1 c2 s2 p2 r y where
    "math_sin ops (f_div ops (f_sub ops (math_radians ops lat2) (math_radians ops lat1))
        (f_of_int ops 2)) = Inr s1"
    "f_pow ops s1 2 = Inr p1"
    "math_cos ops (math_radians ops lat1) = Inr c1"
    "math_cos ops (math_radians ops lat2) = Inr c2"
    "math_sin ops (f_div ops (f_sub ops (math_radians ops lon2) (math_radians ops lon1))
        (f_of_int ops 2)) = Inr s2"
    "f_pow ops s2 2 = Inr p2"
    "math_sqrt ops (f_add ops p1 (f_mul ops (f_mul ops c1 c2) p2)) = Inr r"
    "math_asin ops r = Inr y"
    "x = f_mul ops (f_of_int ops 6371) (f_mul ops (f_of_int ops 2) y)"
  using assms unfolding haversine_def Let_def
  by (auto dest!: and_then_Inr)

lemma haversine_steps:
  assumes "math_sin ops (f_div ops (f_sub ops (math_radians ops lat2) (math_radians ops lat1))
        (f_of_int ops 2)) = Inr s1"
    "f_pow ops s1 2 = Inr p1"
    "math_cos ops (math_radians ops lat1) = Inr c1"
    "math_cos ops (math_radians ops lat2) = Inr c2"
    "math_sin ops (f_div ops (f_sub ops (math_radians ops lon2) (math_radians ops lon1))
        (f_of_int ops 2)) = Inr s2"
    "f_pow ops s2 2 = Inr p2"
    "math_sqrt ops (f_add ops p1 (f_mul ops (f_mul ops c1 c2) p2)) = Inr r"
    "math_asin ops r = Inr y"
  shows "haversine ops lat1 lon1 lat2 lon2
           = Inr (f_mul ops (f_of_int ops 6371) (f_mul ops (f_of_int ops 2) y))"
  using assms unfolding haversine_def Let_def
  by (simp add: and_then_def)

lemma float_lawsD:
  assumes "float_laws ops opposite nonneg nan"
  shows "opposite (f_sub ops x y) (f_sub ops y x)"
    and "opposite a b \<Longrightarrow> opposite (f_div ops a z) (f_div ops b z)"
    and "opposite a b \<Longrightarrow> math_sin ops a = Inr s \<Longrightarrow>
           \<exists>s'. math_sin ops b = Inr s' \<and> opposite s s'"
    and "opposite a b \<Longrightarrow> f_pow ops a 2 = f_pow ops b 2"
    and "f_mul ops x y = f_mul ops y x"
    and "math_sqrt ops x = Inr r \<Longrightarrow> nonneg r \<or> nan r"
    and "math_asin ops r = Inr y \<Longrightarrow> nonneg r \<Longrightarrow> nonneg y"
    and "math_asin ops r = Inr y \<Longrightarrow> nan r \<Longrightarrow> nan y"
    and "0 < k \<Longrightarrow> nonneg x \<Longrightarrow> nonneg (f_mul ops (f_of_int ops k) x)"
    and "0 < k \<Longrightarrow> nan x \<Longrightarrow> nan (f_mul ops (f_of_int ops k) x)"
    and "py_round ops x = Inr t \<Longrightarrow> \<not> nan x"
    and "py_round ops x = Inr t \<Longrightarrow> nonneg x \<Longrightarrow> 0 \<le> t"
proof -
  note l = assms [unfolded float_laws_def]
  from l show "opposite (f_sub ops x y) (f_sub ops y x)" by blast
  from l show "opposite a b \<Longrightarrow> opposite (f_div ops a z) (f_div ops b z)" by blast
  show "\<exists>s'. math_sin ops b = Inr s' \<and> opposite s s'"
    if o: "opposite a b" and s: "math_sin ops a = Inr s"
  proof -
    from l o have "case math_sin ops a of
               Inl e \<Rightarrow> math_sin ops b = Inl e
             | Inr s \<Rightarrow> (\<exists>s'. math_sin ops b = Inr s' \<and> opposite s s')"
      by blast
    with s show ?thesis by simp
  qed
  from l show "opposite a b \<Longrightarrow> f_pow ops a 2 = f_pow ops b 2" by blast
  from l show "f_mul ops x y = f_mul ops y x" by blast
  from l show "math_sqrt ops x = Inr r \<Longrightarrow> nonneg r \<or> nan r" by blast
  from l show "math_asin ops r = Inr y \<Longrightarrow> nonneg r \<Longrightarrow> nonneg y" by blast
  from l show "math_asin ops r = Inr y \<Longrightarrow> nan r \<Longrightarrow> nan y" by blast
  from l show "0 < k \<Longrightarrow> nonneg x \<Longrightarrow> nonneg (f_mul ops (f_of_int ops k) x)" by blast
  from l show "0 < k \<Longrightarrow> nan x \<Longrightarrow> nan (f_mul ops (f_of_int ops k) x)" by blast
  from l show "py_round ops x = Inr t \<Longrightarrow> \<not> nan x" by blast
  from l show "py_round ops x = Inr t \<Longrightarrow> nonneg x \<Longrightarrow> 0 \<le> t" by blast
qed

lemma opposite_square:
  assumes laws: "float_laws ops opposite nonneg nan"
    and s: "math_sin ops (f_div ops (f_sub ops u v) z) = Inr s"
    and p: "f_pow ops s 2 = Inr p"
  shows "\<exists>s'. math_sin ops (f_div ops (f_sub ops v u) z) = Inr s' \<and> f_pow ops s' 2 = Inr p"
proof -
  note o = float_lawsD(2) [OF laws float_lawsD(1) [OF laws], of u v z]
  from float_lawsD(3) [OF laws o s] obtain s' where
    s': "math_sin ops (f_div ops (f_sub ops v u) z) = Inr s'" and os: "opposite s s'"
    by blast
  from float_lawsD(4) [OF laws os] p s' show ?thesis by simp
qed

lemma haversine_sym:
  assumes laws: "float_laws ops opposite nonneg nan"
    and h: "haversine ops lat1 lon1 lat2 lon2 = Inr x"
  shows "haversine ops lat2 lon2 lat1 lon1 = Inr x"
proof -
  from h obtain s1 p1 c1 c2 s2 p2 r y where
    s1: "math_sin ops (f_div ops (f_sub ops (math_radians ops lat2) (math_radians ops lat1))
        (f_of_int ops 2)) = Inr s1" and
    p1: "f_pow ops s1 2 = Inr p1" and
    c1: "math_cos ops (math_radians ops lat1) = Inr c1" and
    c2: "math_cos ops (math_radians ops lat2) = Inr c2" and
    s2: "math_sin ops (f_div ops (f_sub ops (math_radians ops lon2) (math_radians ops lon1))
        (f_of_int ops 2)) = Inr s2" and
    p2: "f_pow ops s2 2 = Inr p2" and
    r: "math_sqrt ops (f_add ops p1 (f_mul ops (f_mul ops c1 c2) p2)) = Inr r" and
    y: "math_asin ops r = Inr y" and
    x: "x = f_mul ops (f_of_int ops 6371) (f_mul ops (f_of_int ops 2) y)"
    by (rule haversine_Inr)
  from opposite_square [OF laws s1 p1] obtain s1' where
    s1': "math_sin ops (f_div ops (f_sub ops (math_radians ops lat1) (math_radians ops lat2))
        (f_of_int ops 2)) = Inr s1'" and p1': "f_pow ops s1' 2 = Inr p1"
    by blast
  from opposite_square [OF laws s2 p2] obtain s2' where
    s2': "math_sin ops (f_div ops (f_sub ops (math_radians ops lon1) (math_radians ops lon2))
        (f_of_int ops 2)) = Inr s2'" and p2': "f_pow ops s2' 2 = Inr p2"
    by blast
  note float_lawsD(5) [OF laws, of c2 c1]
  with r have r': "math_sqrt ops (f_add ops p1 (f_mul ops (f_mul ops c2 c1) p2)) = Inr r"
    by simp
  from haversine_steps [OF s1' p1' c2 c1 s2' p2' r' y] x show ?thesis by simp
qed

lemma haversine_nonneg:
  assumes laws: "float_laws ops opposite nonneg nan"
    and h: "haversine ops lat1 lon1 lat2 lon2 = Inr x"
    and t: "py_round ops (f_mul ops x (f_of_int ops 2)) = Inr t"
  shows "nonneg x \<and> 0 \<le> t"
proof -
  from h obtain s1 p1 c1 c2 s2 p2 r y where
    r: "math_sqrt ops (f_add ops p1 (f_mul ops (f_mul ops c1 c2) p2)) = Inr r" and
    y: "math_asin ops r = Inr y" and
    x: "x = f_mul ops (f_of_int ops 6371) (f_mul ops (f_of_int ops 2) y)"
    by (rule haversine_Inr)
  have twice: "f_mul ops x (f_of_int ops 2) = f_mul ops (f_of_int ops 2) x"
    by (rule float_lawsD(5) [OF laws])
  from float_lawsD(6) [OF laws r] show ?thesis
  proof
    assume "nonneg r"
    with y have ny: "nonneg y" by (rule float_lawsD(7) [OF laws])
    have n2: "nonneg (f_mul ops (f_of_int ops 2) y)"
      using float_lawsD(9) [OF laws, of 2 y] ny by simp
    have nx: "nonneg x"
      using float_lawsD(9) [OF laws, of 6371 "f_mul ops (f_of_int ops 2) y"] n2 x by simp
    have "nonneg (f_mul ops (f_of_int ops 2) x)"
      using float_lawsD(9) [OF laws, of 2 x] nx by simp
    with twice have "nonneg (f_mul ops x (f_of_int ops 2))" by simp
    with t have "0 \<le> t" by (rule float_lawsD(12) [OF laws])
    with nx show ?thesis by simp
  next
    assume "nan r"
    with y have ny: "nan y" by (rule float_lawsD(8) [OF laws])
    have n2: "nan (f_mul ops (f_of_int ops 2) y)"
      using float_lawsD(10) [OF laws, of 2 y] ny by simp
    have nx: "nan x"
      using float_lawsD(10) [OF laws, of 6371 "f_mul ops (f_of_int ops 2) y"] n2 x by simp
    have "nan (f_mul ops (f_of_int ops 2) x)"
      using float_lawsD(10) [OF laws, of 2 x] nx by simp
    with twice have "nan (f_mul ops x (f_of_int ops 2))" by simp
    with float_lawsD(11) [OF laws t] show ?thesis by simp
  qed
qed


lemma set_entry_Inr:
  assumes "set_entry m i j v = Inr m'"
  shows "m' ! i ! j = v"
    and "a \<noteq> i \<or> b \<noteq> j \<Longrightarrow> m' ! a ! b = m ! a ! b"
proof -
  from assms have i: "i < length m" and j: "j < length (m ! i)"
    and m': "m' = m[i := (m ! i)[j := v]]"
    by (auto simp: set_entry_def split: if_splits)
  from i j m' show "m' ! i ! j = v" by simp
  show "m' ! a ! b = m ! a ! b" if "a \<noteq> i \<or> b \<noteq> j"
  proof (cases "a = i")
    case True
    with that have "b \<noteq> j" by simp
    with True i m' show ?thesis by simp
  next
    case False
    with m' show ?thesis by simp
  qed
qed

lemma py_nth_Inr: "py_nth xs i = Inr x \<Longrightarrow> x = xs ! i"
  by (auto simp: py_nth_def split: if_splits)

lemma matrix_inner_loop_entries:
  assumes "matrix_inner_loop ops las los i js (dm, tm) = Inr (dm', tm')"
    and "distinct js"
  shows "(\<forall>j \<in> set js. j \<noteq> i \<longrightarrow>
            (\<exists>d t. haversine ops (las ! i) (los ! i) (las ! j) (los ! j) = Inr d
                 \<and> py_round ops (f_mul ops d (f_of_int ops 2)) = Inr t
                 \<and> dm' ! i ! j = PyFloat d \<and> tm' ! i ! j = t))
         \<and> (\<forall>a b. \<not> (a = i \<and> b \<in> set js \<and> b \<noteq> i) \<longrightarrow>
                dm' ! a ! b = dm ! a ! b \<and> tm' ! a ! b = tm ! a ! b)"
  using assms
proof (induction js arbitrary: dm tm)
  case Nil
  then show ?case by simp
next
  case (Cons j js)
  from Cons.prems(2) have nj: "j \<notin> set js" and djs: "distinct js" by simp_all
  show ?case
  proof (cases "i = j")
    case True
    with Cons.prems(1) have rest: "matrix_inner_loop ops las los i js (dm, tm) = Inr (dm', tm')"
      by simp
    from Cons.IH [OF rest djs] True show ?thesis by auto
  next
    case False
    with Cons.prems(1) obtain d t dm1 tm1 where
      h: "haversine ops (las ! i) (los ! i) (las ! j) (los ! j) = Inr d" and
      w1: "set_entry dm i j (PyFloat d) = Inr dm1" and
      r: "py_round ops (f_mul ops d (f_of_int ops 2)) = Inr t" and
      w2: "set_entry tm i j t = Inr tm1" and
      rest: "matrix_inner_loop ops las los i js (dm1, tm1) = Inr (dm', tm')"
      by (auto dest!: and_then_Inr py_nth_Inr)
    note ih = Cons.IH [OF rest djs]
    from ih nj have keep: "dm' ! i ! j = dm1 ! i ! j" "tm' ! i ! j = tm1 ! i ! j"
      by simp_all
    have head: "\<exists>d t. haversine ops (las ! i) (los ! i) (las ! j) (los ! j) = Inr d
                 \<and> py_round ops (f_mul ops d (f_of_int ops 2)) = Inr t
                 \<and> dm' ! i ! j = PyFloat d \<and> tm' ! i ! j = t"
      using h r keep set_entry_Inr(1) [OF w1] set_entry_Inr(1) [OF w2] by simp
    have frame: "dm' ! a ! b = dm ! a ! b \<and> tm' ! a ! b = tm ! a ! b"
      if "\<not> (a = i \<and> b \<in> set (j # js) \<and> b \<noteq> i)" for a b
    proof -
      from that have "\<not> (a = i \<and> b \<in> set js \<and> b \<noteq> i)" by auto
      with ih have 1: "dm' ! a ! b = dm1 ! a ! b \<and> tm' ! a ! b = tm1 ! a ! b" by blast
      from that False have "a \<noteq> i \<or> b \<noteq> j" by auto
      from set_entry_Inr(2) [OF w1 this] set_entry_Inr(2) [OF w2 this] 1
      show ?thesis by simp
    qed
    from ih head frame show ?thesis by auto
  qed
qed

lemma matrix_outer_loop_entries:
  assumes "matrix_outer_loop ops las los n xs (dm, tm) = Inr (dm', tm')"
    and "distinct xs"
  shows "(\<forall>i \<in> set xs. \<forall>j < n. j \<noteq> i \<longrightarrow>
            (\<exists>d t. haversine ops (las ! i) (los ! i) (las ! j) (los ! j) = Inr d
                 \<and> py_round ops (f_mul ops d (f_of_int ops 2)) = Inr t
                 \<and> dm' ! i ! j = PyFloat d \<and> tm' ! i ! j = t))
         \<and> (\<forall>a b. a \<notin> set xs \<longrightarrow> dm' ! a ! b = dm ! a ! b \<and> tm' ! a ! b = tm ! a ! b)"
  using assms
proof (induction xs arbitrary: dm tm)
  case Nil
  then show ?case by simp
next
  case (Cons i xs)
  from Cons.prems(2) have ni: "i \<notin> set xs" and dxs: "distinct xs" by simp_all
  from Cons.prems(1) obtain dm1 tm1 where
    inner: "matrix_inner_loop ops las los i [0..<n] (dm, tm) = Inr (dm1, tm1)" and
    rest: "matrix_outer_loop ops las los n xs (dm1, tm1) = Inr (dm', tm')"
    by (auto dest!: and_then_Inr)
  have dn: "distinct [0..<n]" by simp
  note row = matrix_inner_loop_entries [OF inner dn]
  note ih = Cons.IH [OF rest dxs]
  have head: "\<exists>d t. haversine ops (las ! i) (los ! i) (las ! j) (los ! j) = Inr d
                 \<and> py_round ops (f_mul ops d (f_of_int ops 2)) = Inr t
                 \<and> dm' ! i ! j = PyFloat d \<and> tm' ! i ! j = t"
    if "j < n" "j \<noteq> i" for j
  proof -
    from row that obtain d t where
      "haversine ops (las ! i) (los ! i) (las ! j) (los ! j) = Inr d"
      "py_round ops (f_mul ops d (f_of_int ops 2)) = Inr t"
      "dm1 ! i ! j = PyFloat d" "tm1 ! i ! j = t"
      by auto
    moreover from ih ni have "dm' ! i ! j = dm1 ! i ! j" "tm' ! i ! j = tm1 ! i ! j"
      by simp_all
    ultimately show ?thesis by simp
  qed
  have frame: "dm' ! a ! b = dm ! a ! b \<and> tm' ! a ! b = tm ! a ! b"
    if "a \<notin> set (i # xs)" for a b
  proof -
    from that have "a \<notin> set xs" and "a \<noteq> i" by simp_all
    with ih row show ?thesis by simp
  qed
  from ih head frame show ?case by auto
qed

lemma build_matrices_entry:
  assumes "build_matrices ops inst = Inr (dm, tm)"
    and "i < num_nodes inst" and "j < num_nodes inst" and "i \<noteq> j"
  shows "\<exists>d t. haversine ops (lats inst ! i) (lons inst ! i) (lats inst ! j) (lons inst ! j) = Inr d
               \<and> py_round ops (f_mul ops d (f_of_int ops 2)) = Inr t
               \<and> dm ! i ! j = PyFloat d \<and> tm ! i ! j = t"
proof -
  let ?n = "num_nodes inst"
  from assms(1) have
    "matrix_outer_loop ops (lats inst) (lons inst) ?n [0..<?n]
       (replicate ?n (replicate ?n (PyInt 0)), replicate ?n (replicate ?n 0))
     = Inr (dm, tm)"
    by (simp add: build_matrices_def Let_def)
  from matrix_outer_loop_entries [OF this] assms(2,3,4) show ?thesis
    by auto
qed

lemma build_matrices_diagonal:
  assumes "build_matrices ops inst = Inr (dm, tm)" and "i < num_nodes inst"
  shows "dm ! i ! i = PyInt 0 \<and> tm ! i ! i = 0"
proof -
  let ?n = "num_nodes inst"
  from assms(1) have
    "matrix_outer_loop ops (lats inst) (lons inst) ?n [0..<?n]
       (replicate ?n (replicate ?n (PyInt 0)), replicate ?n (replicate ?n 0))
     = Inr (dm, tm)"
    by (simp add: build_matrices_def Let_def)
  from matrix_outer_loop_diag [OF this, of i] assms(2) show ?thesis
    by simp
qed

text \<open>
  C10. Under the laws of the float operations, whenever the matrix construction
  completes, both matrices are symmetric and hold no negative entry: for all node
  indices \<open>i\<close> and \<open>j\<close>, \<^verbatim>\<open>dist_matrix[i][j]\<close> is \<^verbatim>\<open>dist_matrix[j][i]\<close> and is not
  negative, and \<^verbatim>\<open>time_matrix[i][j]\<close> is \<^verbatim>\<open>time_matrix[j][i]\<close> and is not negative.
  The haversine distance of two points is the same float in either order, and the time
  is its doubled value rounded.
\<close>

theorem matrices_symmetric_nonneg:
  assumes "float_laws ops opposite nonneg nan"
    and "build_matrices ops inst = Inr (dist_matrix, time_matrix)"
    and "i < num_nodes inst" and "j < num_nodes inst"
  shows "dist_matrix ! i ! j = dist_matrix ! j ! i
         \<and> pynum_nonneg nonneg (dist_matrix ! i ! j)
         \<and> time_matrix ! i ! j = time_matrix ! j ! i
         \<and> 0 \<le> time_matrix ! i ! j"
proof (cases "i = j")
  case True
  with build_matrices_diagonal [OF assms(2,3)] show ?thesis by simp
next
  case False
  from build_matrices_entry [OF assms(2,3,4) False] obtain d t where
    h: "haversine ops (lats inst ! i) (lons inst ! i) (lats inst ! j) (lons inst ! j) = Inr d" and
    r: "py_round ops (f_mul ops d (f_of_int ops 2)) = Inr t" and
    e: "dist_matrix ! i ! j = PyFloat d" "time_matrix ! i ! j = t"
    by blast
  from False have "j \<noteq> i" by simp
  from build_matrices_entry [OF assms(2,4,3) this] obtain d' t' where
    h': "haversine ops (lats inst ! j) (lons inst ! j) (lats inst ! i) (lons inst ! i) = Inr d'" and
    r': "py_round ops (f_mul ops d' (f_of_int ops 2)) = Inr t'" and
    e': "dist_matrix ! j ! i = PyFloat d'" "time_matrix ! j ! i = t'"
    by blast
  from haversine_sym [OF assms(1) h] h' have d: "d' = d" by simp
  with r r' have t: "t' = t" by simp
  from haversine_nonneg [OF assms(1) h r] e e' d t show ?thesis by simp
qed

section \<open>Properties of the setup\<close>

lemma problem_setup_fields:
  assumes "problem_setup ops rt df = Inr s"
  shows "setup_instance s = load_data df"
    and "\<exists>tr. evaluate_unary_transits rt (demand_callback rt (map demand df)) = Inr tr
            \<and> capacity_dimension (setup_model s) = capacity_dim tr"
    and "\<exists>rg. declare_time_ranges rt (zip (map tw_start df) (map tw_end df)) = Inr rg
            \<and> time_dimension (setup_model s) = time_dim rt (setup_time_matrix s) rg"
    and "build_matrices ops (load_data df) = Inr (setup_dist_matrix s, setup_time_matrix s)"
    and "depot_index < length df"
  using assms
  by (auto simp: problem_setup_def Let_def load_data_def create_manager_def num_nodes_def
      dest!: and_then_Inr split: prod.splits if_splits)

lemma int64_Inr: "int64 x = Inr y \<Longrightarrow> y = x"
  by (auto simp: int64_def split: if_splits)

lemma SetRange_Inr:
  "SetRange cur l u = Inr d \<Longrightarrow> d = (max (fst cur) l, min (snd cur) u)"
  by (auto simp: SetRange_def Let_def dest!: and_then_Inr int64_Inr split: if_splits)

lemma time_window_loop_shrinks:
  "time_window_loop rt ws rg = Inr rg' \<Longrightarrow>
     fst (rg i) \<le> fst (rg' i) \<and> snd (rg' i) \<le> snd (rg i)"
proof (induction ws arbitrary: rg)
  case Nil
  then show ?case by simp
next
  case (Cons w ws)
  obtain k st en where w: "w = (k, st, en)" by (cases w)
  from Cons.prems w obtain d where
    d: "SetRange (rg (NodeToIndex rt k)) st en = Inr d" and
    rest: "time_window_loop rt ws (rg(NodeToIndex rt k := d)) = Inr rg'"
    by (auto simp: Let_def dest!: and_then_Inr)
  from Cons.IH [OF rest] SetRange_Inr [OF d] show ?case
    by (cases "i = NodeToIndex rt k") auto
qed

lemma depot_start_loop_shrinks:
  "depot_start_loop rt vs rg = Inr rg' \<Longrightarrow>
     fst (rg i) \<le> fst (rg' i) \<and> snd (rg' i) \<le> snd (rg i)"
proof (induction vs arbitrary: rg)
  case Nil
  then show ?case by simp
next
  case (Cons v vs)
  from Cons.prems obtain d where
    d: "SetRange (rg (Start rt v)) 0 max_route_duration = Inr d" and
    rest: "depot_start_loop rt vs (rg(Start rt v := d)) = Inr rg'"
    by (auto simp: Let_def dest!: and_then_Inr)
  from Cons.IH [OF rest] SetRange_Inr [OF d] show ?case
    by (cases "i = Start rt v") auto
qed

lemma time_window_loop_window:
  "time_window_loop rt ws rg = Inr rg' \<Longrightarrow> (k, st, en) \<in> set ws \<Longrightarrow>
     st \<le> fst (rg' (NodeToIndex rt k)) \<and> snd (rg' (NodeToIndex rt k)) \<le> en"
proof (induction ws arbitrary: rg)
  case Nil
  then show ?case by simp
next
  case (Cons w ws)
  obtain k' st' en' where w: "w = (k', st', en')" by (cases w)
  from Cons.prems(1) w obtain d where
    d: "SetRange (rg (NodeToIndex rt k')) st' en' = Inr d" and
    rest: "time_window_loop rt ws (rg(NodeToIndex rt k' := d)) = Inr rg'"
    by (auto simp: Let_def dest!: and_then_Inr)
  show ?case
  proof (cases "(k, st, en) \<in> set ws")
    case True
    with Cons.IH [OF rest] show ?thesis by simp
  next
    case False
    with Cons.prems(2) w have eq: "k' = k" "st' = st" "en' = en" by simp_all
    from time_window_loop_shrinks [OF rest, of "NodeToIndex rt k"] SetRange_Inr [OF d] eq
    show ?thesis by auto
  qed
qed

lemma declare_time_ranges_window:
  assumes "declare_time_ranges rt tws = Inr rg" and "k < length tws"
  shows "fst (tws ! k) \<le> fst (rg (NodeToIndex rt k))
         \<and> snd (rg (NodeToIndex rt k)) \<le> snd (tws ! k)"
proof -
  from assms(1) obtain rg1 where
    w: "time_window_loop rt (enumerate 0 tws) (\<lambda>index. (0, max_route_duration)) = Inr rg1" and
    s: "depot_start_loop rt [0..<num_vehicles] rg1 = Inr rg"
    by (auto simp: declare_time_ranges_def dest!: and_then_Inr)
  from assms(2) have "(k, fst (tws ! k), snd (tws ! k)) \<in> set (enumerate 0 tws)"
    by (simp add: in_set_enumerate_eq)
  from time_window_loop_window [OF w this]
    depot_start_loop_shrinks [OF s, of "NodeToIndex rt k"]
  show ?thesis by auto
qed

lemma unary_transit_loop_other:
  "unary_transit_loop callback xs tr = Inr tr' \<Longrightarrow> i \<notin> set xs \<Longrightarrow> tr' i = tr i"
proof (induction xs arbitrary: tr)
  case Nil
  then show ?case by simp
next
  case (Cons x xs)
  from Cons.prems(1) obtain a b where
    rest: "unary_transit_loop callback xs (tr(x := b)) = Inr tr'"
    by (auto dest!: and_then_Inr)
  from Cons.IH [OF rest] Cons.prems(2) show ?case by simp
qed

lemma unary_transit_loop_value:
  "unary_transit_loop callback xs tr = Inr tr' \<Longrightarrow> i \<in> set xs \<Longrightarrow>
     callback i = Inr (tr' i)"
proof (induction xs arbitrary: tr)
  case Nil
  then show ?case by simp
next
  case (Cons x xs)
  from Cons.prems(1) obtain a b where
    a: "callback x = Inr a" and b: "int64 a = Inr b" and
    rest: "unary_transit_loop callback xs (tr(x := b)) = Inr tr'"
    by (auto dest!: and_then_Inr)
  show ?case
  proof (cases "i \<in> set xs")
    case True
    with rest show ?thesis by (rule Cons.IH)
  next
    case False
    with Cons.prems(2) have ix: "i = x" by simp
    from unary_transit_loop_other [OF rest False] ix have "tr' i = b" by simp
    with a int64_Inr [OF b] ix show ?thesis by simp
  qed
qed

lemma evaluate_unary_transits_value:
  assumes "evaluate_unary_transits rt callback = Inr tr"
    and "i < num_indices rt" and "\<not> IsEnd rt i"
  shows "callback i = Inr (tr i)"
proof -
  from assms(2,3) have "i \<in> set (filter (\<lambda>index. \<not> IsEnd rt index) [0..<num_indices rt])"
    by simp
  with assms(1) show ?thesis
    unfolding evaluate_unary_transits_def by (rule unary_transit_loop_value)
qed

text \<open>
  A loop over time windows that all fit 64 bits stops with the failure of
  \<^verbatim>\<open>SetRange\<close> as soon as one of them has its earliest time after its latest.
\<close>

lemma time_window_loop_inverted:
  assumes "\<forall>w \<in> set ws. int64 (fst (snd w)) = Inr (fst (snd w))
             \<and> int64 (snd (snd w)) = Inr (snd (snd w))"
    and "\<exists>w \<in> set ws. snd (snd w) < fst (snd w)"
  shows "time_window_loop rt ws rg = Inl CPSolverFail"
  using assms
proof (induction ws arbitrary: rg)
  case Nil
  then show ?case by simp
next
  case (Cons w ws)
  obtain k st en where w: "w = (k, st, en)" by (cases w)
  from Cons.prems(1) w have fit: "int64 st = Inr st" "int64 en = Inr en" by simp_all
  let ?cur = "rg (NodeToIndex rt k)"
  show ?case
  proof (cases "min (snd ?cur) en < max (fst ?cur) st")
    case True
    with w fit show ?thesis
      by (simp add: SetRange_def and_then_def Let_def)
  next
    case False
    then have "\<not> en < st" by auto
    with Cons.prems(2) w have "\<exists>w \<in> set ws. snd (snd w) < fst (snd w)" by simp
    moreover from Cons.prems(1)
    have "\<forall>w \<in> set ws. int64 (fst (snd w)) = Inr (fst (snd w))
             \<and> int64 (snd (snd w)) = Inr (snd (snd w))"
      by simp
    ultimately have "time_window_loop rt ws
        (rg(NodeToIndex rt k := (max (fst ?cur) st, min (snd ?cur) en))) = Inl CPSolverFail"
      by (intro Cons.IH)
    with w fit False show ?thesis
      by (simp add: SetRange_def and_then_def Let_def)
  qed
qed

lemma enumerate_windows:
  "w \<in> set (enumerate n (zip (map tw_start df) (map tw_end df))) \<Longrightarrow>
     \<exists>row \<in> set df. snd w = (tw_start row, tw_end row)"
proof (induction df arbitrary: n)
  case Nil
  then show ?case by simp
next
  case (Cons r df)
  then show ?case by auto
qed

lemma inverted_row_enumerated:
  "row \<in> set df \<Longrightarrow>
     \<exists>w \<in> set (enumerate n (zip (map tw_start df) (map tw_end df))).
        snd w = (tw_start row, tw_end row)"
proof (induction df arbitrary: n)
  case Nil
  then show ?case by simp
next
  case (Cons r df)
  then show ?case by auto
qed

text \<open>
  C6, as amended. A table with a time window whose earliest time is after its latest
  stops the program with a fatal error before any search: when the matrix construction
  completes, the table is not empty, the Capacity dimension is added and the window
  bounds fit 64 bits, the loop of line 95 ends in the failure of \<^verbatim>\<open>SetRange\<close>, the
  setup ends in that exception, and the program ends in it whatever the solver would
  return. The error is the library's, not one of the program's own, and the capacities
  are the positive constants of the script. Nothing is said of the other defects.
\<close>

theorem inverted_window_stops_setup:
  assumes "build_matrices ops (load_data df) = Inr ms"
    and "depot_index < length df"
    and "evaluate_unary_transits rt (demand_callback rt (map demand df)) = Inr tr"
    and "\<forall>row \<in> set df. int64 (tw_start row) = Inr (tw_start row)
                          \<and> int64 (tw_end row) = Inr (tw_end row)"
    and "\<exists>row \<in> set df. tw_end row < tw_start row"
  shows "time_window_loop rt (enumerate 0 (time_windows (load_data df)))
             (\<lambda>index. (0, max_route_duration)) = Inl CPSolverFail
         \<and> problem_setup ops rt df = Inl CPSolverFail
         \<and> program ops rt solve df = Some (Raised CPSolverFail)
         \<and> (\<forall>c \<in> set vehicle_capacities. 0 < c)"
proof -
  let ?tws = "zip (map tw_start df) (map tw_end df)"
  have tws: "time_windows (load_data df) = ?tws" by (simp add: load_data_def)
  have fit: "\<forall>w \<in> set (enumerate 0 ?tws). int64 (fst (snd w)) = Inr (fst (snd w))
             \<and> int64 (snd (snd w)) = Inr (snd (snd w))"
  proof
    fix w assume "w \<in> set (enumerate 0 ?tws)"
    from enumerate_windows [OF this] obtain row where
      "row \<in> set df" and "snd w = (tw_start row, tw_end row)" by blast
    with assms(4) show "int64 (fst (snd w)) = Inr (fst (snd w))
             \<and> int64 (snd (snd w)) = Inr (snd (snd w))"
      by simp
  qed
  from assms(5) obtain row where row: "row \<in> set df" and inv: "tw_end row < tw_start row" ..
  from inverted_row_enumerated [OF row, of 0] obtain w where
    "w \<in> set (enumerate 0 ?tws)" and "snd w = (tw_start row, tw_end row)" by blast
  with inv have "\<exists>w \<in> set (enumerate 0 ?tws). snd (snd w) < fst (snd w)"
    by (intro bexI [of _ w]) simp_all
  with fit have loop: "time_window_loop rt (enumerate 0 ?tws)
      (\<lambda>index. (0, max_route_duration)) = Inl CPSolverFail"
    by (rule time_window_loop_inverted)
  then have "declare_time_ranges rt ?tws = Inl CPSolverFail"
    by (simp add: declare_time_ranges_def and_then_def)
  with assms(1,2,3) have s: "problem_setup ops rt df = Inl CPSolverFail"
    by (cases ms)
      (simp add: problem_setup_def Let_def and_then_def load_data_def create_manager_def
        num_nodes_def)
  then have "program ops rt solve df = Some (Raised CPSolverFail)"
    by (simp add: program_def)
  moreover have "\<forall>c \<in> set vehicle_capacities. 0 < c"
    by (simp add: vehicle_capacities_def)
  ultimately show ?thesis using loop s by (simp add: tws)
qed


section \<open>The branch without a solution\<close>

text \<open>
  C4. When the solver returns no solution, the program prints ``No solution found.''
  and exits: the run ends in the no-solution outcome, which holds the printed line and
  no route data, and is neither an exception nor a loop that never ends.
\<close>

theorem no_solution_signal:
  assumes "problem_setup ops rt df = Inr s"
    and "solve (setup_model s) params = None"
  shows "program ops rt solve df = Some (NoSolution [''No solution found.''])"
  using assms by (simp add: program_def after_solve_def)

section \<open>Properties of the extraction on feasible solutions\<close>

lemma route_loop_follows:
  assumes "follows rt sol i p"
    and "\<forall>x \<in> set (butlast p). IndexToNode rt x < length dem"
  shows "route_loop rt sol dem i ns ts l =
           Some (Inr (last p, ns @ map (IndexToNode rt) (butlast p),
                      ts @ map (time_cumul sol) (butlast p),
                      l + (\<Sum>x\<leftarrow>butlast p. dem ! IndexToNode rt x)))"
  using assms
proof (induction rt sol i p arbitrary: ns ts l rule: follows.induct)
  case (1 rt sol i)
  then show ?case by simp
next
  case (2 rt sol i j)
  then show ?case by (subst route_loop.simps) simp
next
  case (3 rt sol i j k p)
  from "3.prems" have ij: "i = j" and ne: "\<not> IsEnd rt j"
    and f: "follows rt sol (next_value sol j) (k # p)"
    and r: "\<forall>x \<in> set (butlast (k # p)). IndexToNode rt x < length dem"
    and j: "IndexToNode rt j < length dem"
    by simp_all
  have "route_loop rt sol dem i ns ts l =
          route_loop rt sol dem (next_value sol j) (ns @ [IndexToNode rt j])
            (ts @ [time_cumul sol j]) (l + dem ! IndexToNode rt j)"
    using ij ne j by (subst route_loop.simps) (simp add: py_nth_def Let_def)
  also note "3.IH" [OF f r]
  finally show ?case by (simp add: algebra_simps)
qed

lemma extract_route_follows:
  assumes "follows rt sol (Start rt v) p"
    and "\<forall>x \<in> set (butlast p). IndexToNode rt x < length dem"
  shows "extract_route rt sol dem v =
           Some (Inr (map (IndexToNode rt) p, map (time_cumul sol) p,
                      (\<Sum>x\<leftarrow>butlast p. dem ! IndexToNode rt x)))"
proof -
  from assms(1) have ne: "p \<noteq> []" by (cases p) auto
  then have p: "butlast p @ [last p] = p" by simp
  have "map (IndexToNode rt) (butlast p) @ [IndexToNode rt (last p)] = map (IndexToNode rt) (butlast p @ [last p])"
    by simp
  moreover have "map (time_cumul sol) (butlast p) @ [time_cumul sol (last p)] = map (time_cumul sol) (butlast p @ [last p])"
    by simp
  ultimately show ?thesis
    unfolding extract_route_def route_loop_follows [OF assms, of "[]" "[]" 0] p
    by (simp add: Let_def)
qed

lemma follows_shape:
  "follows rt sol i p \<Longrightarrow> p \<noteq> [] \<and> hd p = i \<and> IsEnd rt (last p)"
  by (induction rt sol i p rule: follows.induct) auto

lemma routes_ok_path:
  assumes "routes_ok rt sol paths" and "v < num_vehicles"
  shows "follows rt sol (Start rt v) (paths ! v)"
    and "v < length paths"
    and "set (paths ! v) \<subseteq> {..<num_indices rt}"
proof -
  from assms show f: "follows rt sol (Start rt v) (paths ! v)" and l: "v < length paths"
    by (simp_all add: routes_ok_def)
  from l have "paths ! v \<in> set paths" by simp
  then have "set (paths ! v) \<subseteq> set (concat paths)" by auto
  with assms(1) show "set (paths ! v) \<subseteq> {..<num_indices rt}"
    by (simp add: routes_ok_def)
qed

lemma index_manager_node:
  "index_manager_ok rt n \<Longrightarrow> i < num_indices rt \<Longrightarrow> IndexToNode rt i < n"
  by (simp add: index_manager_ok_def)

lemma extract_route_path:
  assumes m: "index_manager_ok rt (length dem)"
    and r: "routes_ok rt sol paths"
    and v: "v < num_vehicles"
  shows "extract_route rt sol dem v =
           Some (Inr (map (IndexToNode rt) (paths ! v), map (time_cumul sol) (paths ! v),
                      (\<Sum>x\<leftarrow>butlast (paths ! v). dem ! IndexToNode rt x)))"
proof -
  have "\<forall>x \<in> set (butlast (paths ! v)). IndexToNode rt x < length dem"
  proof
    fix x assume "x \<in> set (butlast (paths ! v))"
    then have "x \<in> set (paths ! v)" by (rule in_set_butlastD)
    with routes_ok_path(3) [OF r v] have "x < num_indices rt" by auto
    with m show "IndexToNode rt x < length dem" by (rule index_manager_node)
  qed
  with routes_ok_path(1) [OF r v] show ?thesis by (rule extract_route_follows)
qed

lemma chain_total:
  assumes "chain_ok d cumul p" and "p \<noteq> []" and "slack_max d = 0"
    and "\<forall>i j. transit d i j = f i"
  shows "cumul (last p) = cumul (hd p) + (\<Sum>x\<leftarrow>butlast p. f x)"
  using assms
  by (induction d cumul p rule: chain_ok.induct) simp_all

lemma sum_demands_nodes:
  "(\<Sum>k\<leftarrow>butlast (map f p). dem ! k) = (\<Sum>x\<leftarrow>butlast p. dem ! f x)"
  by (simp add: map_butlast [symmetric] comp_def)

lemma follows_not_end:
  "follows rt sol i p \<Longrightarrow> x \<in> set (butlast p) \<Longrightarrow> \<not> IsEnd rt x"
  by (induction rt sol i p rule: follows.induct) auto

lemma load_within_capacity:
  assumes m: "index_manager_ok rt (length dem)"
    and r: "routes_ok rt sol paths"
    and e: "evaluate_unary_transits rt (demand_callback rt dem) = Inr tr"
    and c: "dimension_ok (capacity_dim tr) (capacity_cumul sol) paths"
    and v: "v < num_vehicles"
  shows "(\<Sum>x\<leftarrow>butlast (paths ! v). dem ! IndexToNode rt x) \<le> vehicle_capacities ! v"
proof -
  let ?p = "paths ! v" and ?d = "capacity_dim tr" and ?c = "capacity_cumul sol"
  from routes_ok_path [OF r v] have f: "follows rt sol (Start rt v) ?p" and l: "v < length paths"
    and sub: "set ?p \<subseteq> {..<num_indices rt}"
    by simp_all
  from follows_shape [OF f] have ne: "?p \<noteq> []" by simp
  from c l have z: "?c (hd ?p) = 0" and ch: "chain_ok ?d ?c ?p"
    and b: "\<forall>i \<in> set ?p. ?c i \<le> capacities ?d ! v"
    by (simp_all add: dimension_ok_def capacity_dim_def)
  have tr: "tr x = dem ! IndexToNode rt x" if x: "x \<in> set (butlast ?p)" for x
  proof -
    from x have "x \<in> set ?p" by (rule in_set_butlastD)
    with sub have xi: "x < num_indices rt" by auto
    from evaluate_unary_transits_value [OF e xi follows_not_end [OF f x]]
      index_manager_node [OF m xi]
    show ?thesis by (simp add: demand_callback_def py_nth_def)
  qed
  have "?c (last ?p) = ?c (hd ?p) + (\<Sum>x\<leftarrow>butlast ?p. tr x)"
    by (rule chain_total [OF ch ne]) (simp_all add: capacity_dim_def)
  also have "(\<Sum>x\<leftarrow>butlast ?p. tr x) = (\<Sum>x\<leftarrow>butlast ?p. dem ! IndexToNode rt x)"
    by (intro arg_cong [where f = sum_list] map_cong refl tr)
  finally have "?c (last ?p) = ?c (hd ?p) + (\<Sum>x\<leftarrow>butlast ?p. dem ! IndexToNode rt x)" .
  moreover from ne b have "?c (last ?p) \<le> capacities ?d ! v" by simp
  ultimately show ?thesis using z by (simp add: capacity_dim_def)
qed

lemma vehicle_capacity_15: "v < num_vehicles \<Longrightarrow> vehicle_capacities ! v = 15"
  by (auto simp: num_vehicles_def vehicle_capacities_def less_Suc_eq numeral_3_eq_3)

text \<open>
  C1. For a solution that is feasible for the model the script declares, the load the
  extraction computes for the route of every vehicle is the sum of the demands of the
  nodes on the route (the depot once, at the start, and every site visited), and it is
  at most the capacity of that vehicle, which is 15.
\<close>

theorem route_load_within_capacity:
  assumes "problem_setup ops rt df = Inr s"
    and "index_manager_ok rt (length df)"
    and "feasible rt (setup_model s) sol paths"
    and "v < num_vehicles"
  shows "\<exists>nodes times load.
           extract_route rt sol (demands (setup_instance s)) v = Some (Inr (nodes, times, load))
           \<and> load = (\<Sum>k\<leftarrow>butlast nodes. demands (setup_instance s) ! k)
           \<and> load \<le> vehicle_capacities ! v
           \<and> vehicle_capacities ! v = 15"
proof -
  let ?dem = "map demand df"
  from problem_setup_fields(1) [OF assms(1)]
  have dem: "demands (setup_instance s) = ?dem"
    by (simp add: load_data_def)
  from problem_setup_fields(2) [OF assms(1)] obtain tr where
    tr: "evaluate_unary_transits rt (demand_callback rt ?dem) = Inr tr" and
    cd: "capacity_dimension (setup_model s) = capacity_dim tr"
    by blast
  from assms(2) have m: "index_manager_ok rt (length ?dem)" by simp
  from assms(3) cd have r: "routes_ok rt sol paths"
    and c: "dimension_ok (capacity_dim tr) (capacity_cumul sol) paths"
    by (simp_all add: feasible_def)
  note e = extract_route_path [OF m r assms(4)]
  note l = load_within_capacity [OF m r tr c assms(4)]
  from e l vehicle_capacity_15 [OF assms(4)] show ?thesis
    unfolding dem by (simp add: sum_demands_nodes)
qed

text \<open>
  C2. For a solution that is feasible for the model the script declares, every node
  other than the depot on an extracted route has its time (the value of the Time
  dimension's cumulative variable at the node) within the time window of the node.
\<close>

theorem arrival_within_time_window:
  assumes "problem_setup ops rt df = Inr s"
    and "index_manager_ok rt (length df)"
    and "feasible rt (setup_model s) sol paths"
    and "v < num_vehicles"
  shows "\<exists>nodes times load.
           extract_route rt sol (demands (setup_instance s)) v = Some (Inr (nodes, times, load))
           \<and> length times = length nodes
           \<and> (\<forall>k < length nodes. nodes ! k \<noteq> depot_index \<longrightarrow>
                 fst (time_windows (setup_instance s) ! (nodes ! k)) \<le> times ! k
                 \<and> times ! k \<le> snd (time_windows (setup_instance s) ! (nodes ! k)))"
proof -
  let ?dem = "map demand df" and ?tws = "zip (map tw_start df) (map tw_end df)"
  let ?p = "paths ! v"
  from problem_setup_fields(1) [OF assms(1)]
  have dem: "demands (setup_instance s) = ?dem"
    and tws: "time_windows (setup_instance s) = ?tws"
    by (simp_all add: load_data_def)
  from problem_setup_fields(3) [OF assms(1)] obtain rg where
    rg: "declare_time_ranges rt ?tws = Inr rg" and
    td: "time_dimension (setup_model s) = time_dim rt (setup_time_matrix s) rg"
    by blast
  from assms(2) have m: "index_manager_ok rt (length ?dem)" by simp
  from assms(3) td have r: "routes_ok rt sol paths"
    and t: "dimension_ok (time_dim rt (setup_time_matrix s) rg) (time_cumul sol) paths"
    by (simp_all add: feasible_def)
  note e = extract_route_path [OF m r assms(4)]
  have "\<forall>k < length ?p. IndexToNode rt (?p ! k) \<noteq> depot_index \<longrightarrow>
          fst (?tws ! IndexToNode rt (?p ! k)) \<le> time_cumul sol (?p ! k)
          \<and> time_cumul sol (?p ! k) \<le> snd (?tws ! IndexToNode rt (?p ! k))"
  proof (intro allI impI)
    fix k assume k: "k < length ?p" and nd: "IndexToNode rt (?p ! k) \<noteq> depot_index"
    let ?x = "?p ! k"
    from k have x: "?x \<in> set ?p" by simp
    with routes_ok_path(3) [OF r assms(4)] have xi: "?x < num_indices rt" by auto
    with assms(2) nd have node: "IndexToNode rt ?x < length df"
      and inv: "NodeToIndex rt (IndexToNode rt ?x) = ?x"
      by (simp_all add: index_manager_ok_def)
    from node have "IndexToNode rt ?x < length ?tws" by simp
    from declare_time_ranges_window [OF rg this] inv
    have w: "fst (?tws ! IndexToNode rt ?x) \<le> fst (rg ?x)"
      "snd (rg ?x) \<le> snd (?tws ! IndexToNode rt ?x)"
      by simp_all
    from t routes_ok_path(2) [OF r assms(4)] x
    have "fst (rg ?x) \<le> time_cumul sol ?x" "time_cumul sol ?x \<le> snd (rg ?x)"
      by (simp_all add: dimension_ok_def time_dim_def)
    with w show "fst (?tws ! IndexToNode rt ?x) \<le> time_cumul sol ?x
                 \<and> time_cumul sol ?x \<le> snd (?tws ! IndexToNode rt ?x)"
      by simp
  qed
  with e show ?thesis unfolding dem tws by simp
qed

text \<open>
  C9. For a solution that is feasible for the model the script declares, the time at
  the final depot of every route is at most the maximum route duration of 240 minutes,
  and the time at the start of every route lies between 0 and that maximum.
\<close>

theorem route_duration_bounded:
  assumes "problem_setup ops rt df = Inr s"
    and "index_manager_ok rt (length df)"
    and "feasible rt (setup_model s) sol paths"
    and "v < num_vehicles"
  shows "\<exists>nodes times load.
           extract_route rt sol (demands (setup_instance s)) v = Some (Inr (nodes, times, load))
           \<and> last times \<le> max_route_duration
           \<and> 0 \<le> hd times \<and> hd times \<le> max_route_duration
           \<and> max_route_duration = 240"
proof -
  let ?dem = "map demand df" and ?p = "paths ! v"
  from problem_setup_fields(1) [OF assms(1)]
  have dem: "demands (setup_instance s) = ?dem"
    by (simp add: load_data_def)
  from problem_setup_fields(3) [OF assms(1)] obtain rg where
    td: "time_dimension (setup_model s) = time_dim rt (setup_time_matrix s) rg"
    by blast
  from assms(2) have m: "index_manager_ok rt (length ?dem)" by simp
  from assms(3) td have r: "routes_ok rt sol paths"
    and t: "dimension_ok (time_dim rt (setup_time_matrix s) rg) (time_cumul sol) paths"
    by (simp_all add: feasible_def)
  note e = extract_route_path [OF m r assms(4)]
  from follows_shape [OF routes_ok_path(1) [OF r assms(4)]] have ne: "?p \<noteq> []" by simp
  from t routes_ok_path(2) [OF r assms(4)] assms(4)
  have b: "\<forall>i \<in> set ?p. 0 \<le> time_cumul sol i \<and> time_cumul sol i \<le> max_route_duration"
    by (auto simp: dimension_ok_def time_dim_def)
  from ne b have "time_cumul sol (last ?p) \<le> max_route_duration"
    and "0 \<le> time_cumul sol (hd ?p)" and "time_cumul sol (hd ?p) \<le> max_route_duration"
    by simp_all
  with e ne show ?thesis unfolding dem
    by (simp add: last_map hd_map max_route_duration_def)
qed

lemma vehicle_loop_result:
  assumes "\<forall>v \<in> set vs. extract_route rt sol dem v = Some (Inr (R v, T v, L v))"
  shows "vehicle_loop rt sol dem vs out =
           Some (Inr \<lparr> vehicle_routes =
                        (\<lambda>v. if v \<in> set vs \<and> 2 < length (R v) then Some (R v)
                             else vehicle_routes out v),
                      vehicle_times =
                        (\<lambda>v. if v \<in> set vs \<and> 2 < length (R v) then Some (T v)
                             else vehicle_times out v),
                      vehicle_loads =
                        (\<lambda>v. if v \<in> set vs \<and> 2 < length (R v) then Some (L v)
                             else vehicle_loads out v) \<rparr>)"
  using assms
proof (induction vs arbitrary: out)
  case Nil
  then show ?case by simp
next
  case (Cons v vs)
  from Cons.prems have e: "extract_route rt sol dem v = Some (Inr (R v, T v, L v))"
    and rest: "\<forall>v \<in> set vs. extract_route rt sol dem v = Some (Inr (R v, T v, L v))"
    by simp_all
  show ?case
    by (simp add: e Cons.IH [OF rest] fun_eq_iff)
qed

lemma after_solve_paths:
  assumes m: "index_manager_ok rt (length dem)"
    and r: "routes_ok rt sol paths"
  shows "after_solve rt dem (Some sol) =
           Some (Extracted
             \<lparr> vehicle_routes =
                 (\<lambda>v. if v < num_vehicles \<and> 2 < length (paths ! v)
                      then Some (map (IndexToNode rt) (paths ! v)) else None),
               vehicle_times =
                 (\<lambda>v. if v < num_vehicles \<and> 2 < length (paths ! v)
                      then Some (map (time_cumul sol) (paths ! v)) else None),
               vehicle_loads =
                 (\<lambda>v. if v < num_vehicles \<and> 2 < length (paths ! v)
                      then Some (\<Sum>x\<leftarrow>butlast (paths ! v). dem ! IndexToNode rt x)
                      else None) \<rparr>)"
proof -
  have "\<forall>v \<in> set [0..<num_vehicles].
          extract_route rt sol dem v =
            Some (Inr (map (IndexToNode rt) (paths ! v), map (time_cumul sol) (paths ! v),
                       (\<Sum>x\<leftarrow>butlast (paths ! v). dem ! IndexToNode rt x)))"
    using extract_route_path [OF m r] by simp
  note vehicle_loop_result [where R = "\<lambda>v. map (IndexToNode rt) (paths ! v)", OF this]
  then show ?thesis by (simp add: after_solve_def cong: if_cong)
qed

lemma route_ends_at_depot:
  assumes m: "index_manager_ok rt n"
    and r: "routes_ok rt sol paths"
    and v: "v < num_vehicles"
  shows "IndexToNode rt (hd (paths ! v)) = depot_index"
    and "IndexToNode rt (last (paths ! v)) = depot_index"
proof -
  let ?p = "paths ! v"
  from follows_shape [OF routes_ok_path(1) [OF r v]]
  have ne: "?p \<noteq> []" and h: "hd ?p = Start rt v" and e: "IsEnd rt (last ?p)"
    by simp_all
  from m v h show "IndexToNode rt (hd ?p) = depot_index"
    by (simp add: index_manager_ok_def)
  from ne have "last ?p \<in> set ?p" by simp
  with routes_ok_path(3) [OF r v] have "last ?p < num_indices rt" by auto
  with m e show "IndexToNode rt (last ?p) = depot_index"
    by (simp add: index_manager_ok_def)
qed

text \<open>
  C5. Given a solution, the extraction fills the three dictionaries for exactly the
  vehicles whose route has more than two entries: the nodes of the route in order,
  which start and end at the depot, the value of the Time dimension at every entry of
  the route, both depot entries included, and the load of the route. A vehicle whose
  route is depot to depot has no entry in any dictionary. The solution and the routing
  model are only read: the result of the extraction is the dictionaries alone.
\<close>

theorem extraction_contract:
  assumes "index_manager_ok rt (length dem)"
    and "routes_ok rt sol paths"
  shows "\<exists>out. after_solve rt dem (Some sol) = Some (Extracted out)
           \<and> (\<forall>v. (v < num_vehicles \<and> 2 < length (paths ! v) \<longrightarrow>
                      vehicle_routes out v = Some (map (IndexToNode rt) (paths ! v))
                      \<and> hd (map (IndexToNode rt) (paths ! v)) = depot_index
                      \<and> last (map (IndexToNode rt) (paths ! v)) = depot_index
                      \<and> vehicle_times out v = Some (map (time_cumul sol) (paths ! v))
                      \<and> vehicle_loads out v =
                          Some (\<Sum>x\<leftarrow>butlast (paths ! v). dem ! IndexToNode rt x))
                  \<and> (\<not> (v < num_vehicles \<and> 2 < length (paths ! v)) \<longrightarrow>
                      vehicle_routes out v = None \<and> vehicle_times out v = None
                      \<and> vehicle_loads out v = None))"
proof -
  have "hd (map (IndexToNode rt) (paths ! v)) = depot_index
        \<and> last (map (IndexToNode rt) (paths ! v)) = depot_index"
    if v: "v < num_vehicles" for v
  proof -
    from follows_shape [OF routes_ok_path(1) [OF assms(2) v]] have "paths ! v \<noteq> []" by simp
    with route_ends_at_depot [OF assms v] show ?thesis
      by (simp add: hd_map last_map)
  qed
  then show ?thesis
    unfolding after_solve_paths [OF assms] by simp
qed

lemma count_list_concat:
  "count_list (concat xss) k = (\<Sum>xs\<leftarrow>xss. count_list xs k)"
  by (induction xss) simp_all

lemma count_list_map_one:
  assumes "distinct xs" and "x0 \<in> set xs" and "f x0 = k"
    and "\<forall>x \<in> set xs. f x = k \<longrightarrow> x = x0"
  shows "count_list (map f xs) k = 1"
  using assms
proof (induction xs)
  case Nil
  then show ?case by simp
next
  case (Cons x xs)
  from Cons.prems(1) have nx: "x \<notin> set xs" and d: "distinct xs" by simp_all
  from Cons.prems(4) have all: "\<forall>y \<in> set xs. f y = k \<longrightarrow> y = x0" by simp
  show ?case
  proof (cases "x = x0")
    case True
    with nx all have "\<forall>y \<in> set xs. f y \<noteq> k" by blast
    then have "count_list (map f xs) k = 0" by (auto simp: count_list_0_iff)
    moreover from True Cons.prems(3) have "f x = k" by simp
    ultimately show ?thesis by simp
  next
    case False
    with Cons.prems(2) have in_xs: "x0 \<in> set xs" by simp
    from False Cons.prems(4) have "f x \<noteq> k" by auto
    moreover have "count_list (map f xs) k = 1"
      by (rule Cons.IH [OF d in_xs Cons.prems(3) all])
    ultimately show ?thesis by simp
  qed
qed

lemma short_route_only_depot:
  assumes m: "index_manager_ok rt n"
    and r: "routes_ok rt sol paths"
    and v: "v < num_vehicles"
    and short: "\<not> 2 < length (paths ! v)"
    and k: "k \<noteq> depot_index"
  shows "count_list (map (IndexToNode rt) (paths ! v)) k = 0"
proof -
  let ?p = "paths ! v"
  from follows_shape [OF routes_ok_path(1) [OF r v]] have ne: "?p \<noteq> []" by simp
  from route_ends_at_depot [OF m r v]
  have h: "IndexToNode rt (hd ?p) = depot_index" and l: "IndexToNode rt (last ?p) = depot_index"
    by simp_all
  have "set ?p = {hd ?p, last ?p}"
  proof (cases ?p)
    case Nil
    with ne show ?thesis by simp
  next
    case (Cons a q)
    with short have "q = [] \<or> (\<exists>b. q = [b])"
      by (cases q) auto
    with Cons show ?thesis by auto
  qed
  with h l k have "\<forall>x \<in> set ?p. IndexToNode rt x \<noteq> k" by auto
  then show ?thesis by (auto simp: count_list_0_iff)
qed

lemma site_once_on_paths:
  assumes m: "index_manager_ok rt n"
    and r: "routes_ok rt sol paths"
    and k: "k < n" "k \<noteq> depot_index"
  shows "count_list (map (IndexToNode rt) (concat paths)) k = 1"
proof (rule count_list_map_one)
  from r show "distinct (concat paths)" by (simp add: routes_ok_def)
  from m k r show "NodeToIndex rt k \<in> set (concat paths)"
    by (simp add: routes_ok_def index_manager_ok_def)
  from m k show "IndexToNode rt (NodeToIndex rt k) = k"
    by (simp add: index_manager_ok_def)
  show "\<forall>x \<in> set (concat paths). IndexToNode rt x = k \<longrightarrow> x = NodeToIndex rt k"
  proof (intro ballI impI)
    fix x assume "x \<in> set (concat paths)" and xk: "IndexToNode rt x = k"
    with r have "x < num_indices rt" by (simp add: routes_ok_def)
    with m xk k(2) show "x = NodeToIndex rt k"
      by (auto simp: index_manager_ok_def)
  qed
qed

text \<open>
  C3. For every solution whose routes are well formed, as the routes of a feasible
  solution are, every node other than the depot occurs exactly once across the
  extracted routes of all vehicles: it is on exactly one route, and on that route once.
  The program has no list of unassigned nodes (no node is declared optional), so the
  first alternative of the claim always holds.
\<close>

theorem each_site_on_one_route:
  assumes "index_manager_ok rt (length dem)"
    and "routes_ok rt sol paths"
    and "k < length dem" and "k \<noteq> depot_index"
  shows "\<exists>out. after_solve rt dem (Some sol) = Some (Extracted out)
           \<and> dom (vehicle_routes out) \<subseteq> {..<num_vehicles}
           \<and> count_list
                (concat (map (\<lambda>v. case vehicle_routes out v of None \<Rightarrow> [] | Some route \<Rightarrow> route)
                             [0..<num_vehicles])) k = 1"
proof -
  let ?I = "IndexToNode rt"
  let ?g = "\<lambda>v. if v < num_vehicles \<and> 2 < length (paths ! v) then map ?I (paths ! v) else []"
  have len: "length paths = num_vehicles"
    using assms(2) by (simp add: routes_ok_def)
  have "count_list (?g v) k = count_list (map ?I (paths ! v)) k" if "v < num_vehicles" for v
    using that short_route_only_depot [OF assms(1,2) that _ assms(4)] by simp
  then have "(\<Sum>v\<leftarrow>[0..<num_vehicles]. count_list (?g v) k)
             = (\<Sum>v\<leftarrow>[0..<num_vehicles]. count_list (map ?I (paths ! v)) k)"
    by (intro arg_cong [where f = sum_list] map_cong) auto
  also have "\<dots> = (\<Sum>p\<leftarrow>map ((!) paths) [0..<length paths]. count_list (map ?I p) k)"
    by (simp add: len comp_def)
  also have "\<dots> = (\<Sum>p\<leftarrow>paths. count_list (map ?I p) k)"
    by (simp only: map_nth)
  also have "\<dots> = count_list (map ?I (concat paths)) k"
    by (simp add: map_concat count_list_concat comp_def)
  also have "\<dots> = 1"
    by (rule site_once_on_paths [OF assms])
  finally have total: "count_list (concat (map ?g [0..<num_vehicles])) k = 1"
    by (simp add: count_list_concat comp_def)
  have g: "(\<lambda>v. case (if v < num_vehicles \<and> 2 < length (paths ! v)
                         then Some (map ?I (paths ! v)) else None) of
                  None \<Rightarrow> [] | Some route \<Rightarrow> route) = ?g"
    by (rule ext) simp
  show ?thesis
    unfolding after_solve_paths [OF assms(1,2)]
    by (simp add: g total dom_def subset_iff cong: if_cong)
qed

section \<open>Concrete runs\<close>

lemma haversine_same_point:
  "haversine exact_ops la lo la lo = Inr 0"
  by (simp add: haversine_def exact_ops_def and_then_def)

lemma build_matrices_two_sites:
  "build_matrices exact_ops (load_data two_sites)
     = Inr ([[PyInt 0, PyFloat 0], [PyFloat 0, PyInt 0]], [[0, 0], [0, 0]])"
proof -
  have r: "py_round exact_ops (f_mul exact_ops 0 (f_of_int exact_ops 2)) = Inr 0"
    by (simp add: exact_ops_def round_half_even_def)
  have u: "[0..<2] = [0, Suc 0]"
    by (simp add: upt_rec)
  show ?thesis
    by (simp add: build_matrices_def load_data_def two_sites_def num_nodes_def u
        haversine_same_point r and_then_def py_nth_def set_entry_def)
qed

theorem self_arcs_zero_witness:
  "build_matrices exact_ops (load_data two_sites)
     = Inr ([[PyInt 0, PyFloat 0], [PyFloat 0, PyInt 0]], [[0, 0], [0, 0]])
   \<and> (1::nat) < num_nodes (load_data two_sites)
   \<and> [[PyInt 0, PyFloat 0], [PyFloat 0, PyInt (0::int)]] ! 1 ! 1 = (PyInt 0 :: real pynum)
   \<and> [[0, 0], [0, 0::int]] ! 1 ! 1 = 0"
proof -
  have n: "(1::nat) < num_nodes (load_data two_sites)"
    by (simp add: num_nodes_def load_data_def two_sites_def)
  from self_arcs_zero [OF build_matrices_two_sites n] build_matrices_two_sites n
  show ?thesis by simp
qed

lemma exact_ops_laws:
  "float_laws exact_ops (\<lambda>a b. b = - a) (\<lambda>x. 0 \<le> x) (\<lambda>x. False)"
proof -
  have asin: "0 \<le> arcsin r" if "0 \<le> r" "r \<le> 1" for r :: real
    using arcsin_le_arcsin [of 0 r] that by simp
  have rnd: "0 \<le> round_half_even x" if "0 \<le> x" for x
    using that by (auto simp: round_half_even_def Let_def)
  show ?thesis
    unfolding float_laws_def
    by (auto simp: exact_ops_def asin rnd split: if_splits)
qed

theorem matrices_symmetric_nonneg_witness:
  "float_laws exact_ops (\<lambda>a b. b = - a) (\<lambda>x. 0 \<le> x) (\<lambda>x. False)
   \<and> build_matrices exact_ops (load_data two_sites)
       = Inr ([[PyInt 0, PyFloat 0], [PyFloat 0, PyInt 0]], [[0, 0], [0, 0]])
   \<and> (0::nat) < num_nodes (load_data two_sites) \<and> (1::nat) < num_nodes (load_data two_sites)
   \<and> [[PyInt 0, PyFloat 0], [PyFloat 0, PyInt 0]] ! 0 ! 1
       = ([[PyInt 0, PyFloat 0], [PyFloat 0, PyInt 0]] ! 1 ! 0 :: real pynum)
   \<and> pynum_nonneg (\<lambda>x. 0 \<le> x) ([[PyInt 0, PyFloat 0], [PyFloat 0, PyInt 0]] ! 0 ! 1 :: real pynum)
   \<and> [[0, 0], [0, 0 :: int]] ! 0 ! 1 = [[0, 0], [0, 0 :: int]] ! 1 ! 0
   \<and> (0::int) \<le> [[0, 0], [0, 0]] ! 0 ! 1"
proof -
  have n: "(0::nat) < num_nodes (load_data two_sites)" "(1::nat) < num_nodes (load_data two_sites)"
    by (simp_all add: num_nodes_def load_data_def two_sites_def)
  from matrices_symmetric_nonneg [OF exact_ops_laws build_matrices_two_sites n]
    exact_ops_laws build_matrices_two_sites n
  show ?thesis by simp
qed

lemma index_layout_ok:
  "0 < n \<Longrightarrow> index_manager_ok (index_layout n) n"
  by (auto simp: index_manager_ok_def index_layout_def depot_index_def num_vehicles_def)

lemma vehicles_upt: "[0..<num_vehicles] = [0, 1, 2]"
  by (simp add: num_vehicles_def upt_rec)

lemma two_sites_ranges:
  "declare_time_ranges (index_layout 2) [(0, 240), (10, 120)]
     = Inr ((\<lambda>index. (0, 240))(1 := (10, 120)))"
  by (simp add: declare_time_ranges_def vehicles_upt and_then_def SetRange_def int64_def
      index_layout_def max_route_duration_def depot_index_def fun_eq_iff)

lemma layout_indices:
  "filter (\<lambda>index. \<not> IsEnd (index_layout 2) index) [0..<num_indices (index_layout 2)]
     = [0, 1, 2, 3]"
  by (simp add: index_layout_def num_vehicles_def upt_rec)

lemma two_sites_transits:
  "evaluate_unary_transits (index_layout 2) (demand_callback (index_layout 2) [0, 4])
     = Inr ((\<lambda>index. 0)(1 := 4))"
  unfolding evaluate_unary_transits_def layout_indices
  by (simp add: demand_callback_def py_nth_def int64_def and_then_def index_layout_def
      depot_index_def fun_eq_iff)

lemma two_sites_routes_ok:
  "routes_ok (index_layout 2) two_sites_solution two_sites_paths"
proof -
  have "set (concat two_sites_paths) = {..<num_indices (index_layout 2)}"
    by (auto simp: two_sites_paths_def index_layout_def num_vehicles_def)
  moreover have "\<forall>v < num_vehicles.
      follows (index_layout 2) two_sites_solution (Start (index_layout 2) v) (two_sites_paths ! v)"
    by (simp add: All_less_Suc two_sites_paths_def two_sites_solution_def
      index_layout_def num_vehicles_def depot_index_def numeral_3_eq_3)
  moreover have "distinct (concat two_sites_paths)" "length two_sites_paths = num_vehicles"
    by (simp_all add: two_sites_paths_def num_vehicles_def)
  ultimately show ?thesis
    by (simp add: routes_ok_def)
qed

lemma two_sites_capacity_ok:
  "dimension_ok (capacity_dim ((\<lambda>index. 0)(1 := 4))) (capacity_cumul two_sites_solution)
     two_sites_paths"
  by (simp add: dimension_ok_def All_less_Suc two_sites_paths_def two_sites_solution_def
      capacity_dim_def vehicle_capacities_def)

lemma two_sites_time_ok:
  "dimension_ok (time_dim (index_layout 2) [[0, 0], [0, 0]] ((\<lambda>index. (0, 240))(1 := (10, 120))))
     (time_cumul two_sites_solution) two_sites_paths"
  by (simp add: dimension_ok_def All_less_Suc two_sites_paths_def two_sites_solution_def
      time_dim_def time_callback_def index_layout_def max_route_duration_def
      depot_index_def num_vehicles_def)

lemma two_sites_columns:
  "map demand two_sites = [0, 4]"
  "zip (map tw_start two_sites) (map tw_end two_sites) = [(0, 240), (10, 120)]"
  "length two_sites = 2"
  by (simp_all add: two_sites_def)

lemma two_sites_setup:
  "\<exists>s. problem_setup exact_ops (index_layout 2) two_sites = Inr s"
proof -
  have w: "time_windows (load_data two_sites) = [(0, 240), (10, 120)]"
    by (simp add: load_data_def two_sites_def)
  have d: "demands (load_data two_sites) = [0, 4]"
    and n: "num_nodes (load_data two_sites) = 2"
    by (simp_all add: load_data_def two_sites_def num_nodes_def)
  show ?thesis
    by (simp add: problem_setup_def Let_def build_matrices_two_sites w d n two_sites_ranges
        two_sites_transits create_manager_def depot_index_def and_then_def)
qed

lemma two_sites_setup_fields:
  assumes "problem_setup exact_ops (index_layout 2) two_sites = Inr s"
  shows "demands (setup_instance s) = [0, 4]"
    and "time_windows (setup_instance s) = [(0, 240), (10, 120)]"
    and "capacity_dimension (setup_model s) = capacity_dim ((\<lambda>index. 0)(1 := 4))"
    and "time_dimension (setup_model s)
           = time_dim (index_layout 2) [[0, 0], [0, 0]] ((\<lambda>index. (0, 240))(1 := (10, 120)))"
proof -
  from problem_setup_fields(1) [OF assms] two_sites_columns
  show "demands (setup_instance s) = [0, 4]"
    and "time_windows (setup_instance s) = [(0, 240), (10, 120)]"
    by (simp_all add: load_data_def)
  from problem_setup_fields(2) [OF assms] two_sites_columns two_sites_transits
  show "capacity_dimension (setup_model s) = capacity_dim ((\<lambda>index. 0)(1 := 4))"
    by auto
  from problem_setup_fields(4) [OF assms] build_matrices_two_sites
  have tm: "setup_time_matrix s = [[0, 0], [0, 0]]" by simp
  from problem_setup_fields(3) [OF assms] two_sites_columns two_sites_ranges tm
  show "time_dimension (setup_model s)
          = time_dim (index_layout 2) [[0, 0], [0, 0]] ((\<lambda>index. (0, 240))(1 := (10, 120)))"
    by auto
qed

lemma two_sites_feasible:
  assumes "problem_setup exact_ops (index_layout 2) two_sites = Inr s"
  shows "feasible (index_layout 2) (setup_model s) two_sites_solution two_sites_paths"
  unfolding feasible_def two_sites_setup_fields(3,4) [OF assms]
  using two_sites_routes_ok two_sites_capacity_ok two_sites_time_ok by simp

lemma two_sites_manager_ok: "index_manager_ok (index_layout 2) (length two_sites)"
  by (simp add: two_sites_columns index_layout_ok)

lemma two_sites_values_manager_ok:
  "index_manager_ok (index_layout 2) (length [0, 4 :: int])"
  using index_layout_ok [of 2] by (simp add: numeral_2_eq_2)

lemma two_sites_route:
  "extract_route (index_layout 2) two_sites_solution [0, 4] 0
     = Some (Inr ([0, 1, 0], [0, 10, 10], 4))"
proof -
  have v: "0 < num_vehicles" by (simp add: num_vehicles_def)
  show ?thesis
    unfolding extract_route_path [OF two_sites_values_manager_ok two_sites_routes_ok v]
    by (simp add: two_sites_paths_def two_sites_solution_def index_layout_def depot_index_def)
qed

theorem route_load_within_capacity_witness:
  "\<exists>s. problem_setup exact_ops (index_layout 2) two_sites = Inr s
       \<and> index_manager_ok (index_layout 2) (length two_sites)
       \<and> feasible (index_layout 2) (setup_model s) two_sites_solution two_sites_paths
       \<and> (0::nat) < num_vehicles
       \<and> extract_route (index_layout 2) two_sites_solution (demands (setup_instance s)) 0
           = Some (Inr ([0, 1, 0], [0, 10, 10], 4))
       \<and> (4::int) = (\<Sum>k\<leftarrow>butlast [0, 1, 0]. demands (setup_instance s) ! k)
       \<and> (4::int) \<le> vehicle_capacities ! 0
       \<and> vehicle_capacities ! 0 = 15"
proof -
  from two_sites_setup obtain s where
    s: "problem_setup exact_ops (index_layout 2) two_sites = Inr s" ..
  have v: "(0::nat) < num_vehicles" by (simp add: num_vehicles_def)
  note f = two_sites_feasible [OF s]
  from route_load_within_capacity [OF s two_sites_manager_ok f v]
  have "extract_route (index_layout 2) two_sites_solution (demands (setup_instance s)) 0
           = Some (Inr ([0, 1, 0], [0, 10, 10], 4))
       \<and> (4::int) = (\<Sum>k\<leftarrow>butlast [0, 1, 0]. demands (setup_instance s) ! k)
       \<and> (4::int) \<le> vehicle_capacities ! 0
       \<and> vehicle_capacities ! 0 = 15"
    by (auto simp: two_sites_setup_fields(1) [OF s] two_sites_route)
  with s two_sites_manager_ok f v show ?thesis by blast
qed

theorem arrival_within_time_window_witness:
  "\<exists>s. problem_setup exact_ops (index_layout 2) two_sites = Inr s
       \<and> index_manager_ok (index_layout 2) (length two_sites)
       \<and> feasible (index_layout 2) (setup_model s) two_sites_solution two_sites_paths
       \<and> (0::nat) < num_vehicles
       \<and> extract_route (index_layout 2) two_sites_solution (demands (setup_instance s)) 0
           = Some (Inr ([0, 1, 0], [0, 10, 10], 4))
       \<and> [0, 1, 0] ! 1 \<noteq> depot_index
       \<and> fst (time_windows (setup_instance s) ! ([0, 1, 0] ! 1)) \<le> [0, 10, 10 :: int] ! 1
       \<and> [0, 10, 10 :: int] ! 1 \<le> snd (time_windows (setup_instance s) ! ([0, 1, 0] ! 1))"
proof -
  from two_sites_setup obtain s where
    s: "problem_setup exact_ops (index_layout 2) two_sites = Inr s" ..
  have v: "(0::nat) < num_vehicles" by (simp add: num_vehicles_def)
  note f = two_sites_feasible [OF s]
  have e: "extract_route (index_layout 2) two_sites_solution (demands (setup_instance s)) 0
           = Some (Inr ([0, 1, 0], [0, 10, 10], 4))"
    by (simp add: two_sites_setup_fields(1) [OF s] two_sites_route)
  have d: "[0, 1, 0] ! 1 \<noteq> depot_index" by (simp add: depot_index_def)
  from arrival_within_time_window [OF s two_sites_manager_ok f v] e
  have "\<forall>k < length [0, 1, 0 :: nat]. [0, 1, 0] ! k \<noteq> depot_index \<longrightarrow>
          fst (time_windows (setup_instance s) ! ([0, 1, 0] ! k)) \<le> [0, 10, 10 :: int] ! k
          \<and> [0, 10, 10 :: int] ! k \<le> snd (time_windows (setup_instance s) ! ([0, 1, 0] ! k))"
    by auto
  then have "[0, 1, 0] ! 1 \<noteq> depot_index \<longrightarrow>
          fst (time_windows (setup_instance s) ! ([0, 1, 0] ! 1)) \<le> [0, 10, 10 :: int] ! 1
          \<and> [0, 10, 10 :: int] ! 1 \<le> snd (time_windows (setup_instance s) ! ([0, 1, 0] ! 1))"
    by (rule allE [where x = 1]) simp
  with d s two_sites_manager_ok f v e show ?thesis by blast
qed

theorem route_duration_bounded_witness:
  "\<exists>s. problem_setup exact_ops (index_layout 2) two_sites = Inr s
       \<and> index_manager_ok (index_layout 2) (length two_sites)
       \<and> feasible (index_layout 2) (setup_model s) two_sites_solution two_sites_paths
       \<and> (0::nat) < num_vehicles
       \<and> extract_route (index_layout 2) two_sites_solution (demands (setup_instance s)) 0
           = Some (Inr ([0, 1, 0], [0, 10, 10], 4))
       \<and> last [0, 10, 10] \<le> max_route_duration
       \<and> 0 \<le> hd [0, 10, 10 :: int] \<and> hd [0, 10, 10] \<le> max_route_duration
       \<and> max_route_duration = 240"
proof -
  from two_sites_setup obtain s where
    s: "problem_setup exact_ops (index_layout 2) two_sites = Inr s" ..
  have v: "(0::nat) < num_vehicles" by (simp add: num_vehicles_def)
  note f = two_sites_feasible [OF s]
  have e: "extract_route (index_layout 2) two_sites_solution (demands (setup_instance s)) 0
           = Some (Inr ([0, 1, 0], [0, 10, 10], 4))"
    by (simp add: two_sites_setup_fields(1) [OF s] two_sites_route)
  from route_duration_bounded [OF s two_sites_manager_ok f v] e
  have "last [0, 10, 10] \<le> max_route_duration
       \<and> 0 \<le> hd [0, 10, 10 :: int] \<and> hd [0, 10, 10] \<le> max_route_duration
       \<and> max_route_duration = 240"
    by auto
  with s two_sites_manager_ok f v e show ?thesis by blast
qed

theorem extraction_contract_witness:
  "index_manager_ok (index_layout 2) (length [0, 4 :: int])
   \<and> routes_ok (index_layout 2) two_sites_solution two_sites_paths
   \<and> (\<exists>out. after_solve (index_layout 2) [0, 4] (Some two_sites_solution) = Some (Extracted out)
          \<and> vehicle_routes out 0 = Some [0, 1, 0]
          \<and> vehicle_times out 0 = Some [0, 10, 10]
          \<and> vehicle_loads out 0 = Some 4
          \<and> vehicle_routes out 1 = None \<and> vehicle_times out 1 = None
          \<and> vehicle_loads out 1 = None
          \<and> vehicle_routes out 2 = None \<and> vehicle_times out 2 = None
          \<and> vehicle_loads out 2 = None)"
proof -
  from extraction_contract [OF two_sites_values_manager_ok two_sites_routes_ok]
  obtain out where
    a: "after_solve (index_layout 2) [0, 4] (Some two_sites_solution) = Some (Extracted out)" and
    yes: "\<And>v. v < num_vehicles \<and> 2 < length (two_sites_paths ! v) \<Longrightarrow>
            vehicle_routes out v = Some (map (IndexToNode (index_layout 2)) (two_sites_paths ! v))
            \<and> vehicle_times out v = Some (map (time_cumul two_sites_solution) (two_sites_paths ! v))
            \<and> vehicle_loads out v =
                Some (\<Sum>x\<leftarrow>butlast (two_sites_paths ! v). [0, 4] ! IndexToNode (index_layout 2) x)" and
    no: "\<And>v. \<not> (v < num_vehicles \<and> 2 < length (two_sites_paths ! v)) \<Longrightarrow>
            vehicle_routes out v = None \<and> vehicle_times out v = None \<and> vehicle_loads out v = None"
    by blast
  have "vehicle_routes out 0 = Some [0, 1, 0] \<and> vehicle_times out 0 = Some [0, 10, 10]
        \<and> vehicle_loads out 0 = Some 4"
    using yes [of 0]
    by (simp add: num_vehicles_def two_sites_paths_def two_sites_solution_def index_layout_def
        depot_index_def)
  moreover have "vehicle_routes out 1 = None \<and> vehicle_times out 1 = None
        \<and> vehicle_loads out 1 = None"
    using no [of 1] by (simp add: two_sites_paths_def)
  moreover have "vehicle_routes out 2 = None \<and> vehicle_times out 2 = None
        \<and> vehicle_loads out 2 = None"
    using no [of 2] by (simp add: two_sites_paths_def)
  ultimately show ?thesis
    using a two_sites_values_manager_ok two_sites_routes_ok by blast
qed

theorem each_site_on_one_route_witness:
  "index_manager_ok (index_layout 2) (length [0, 4 :: int])
   \<and> routes_ok (index_layout 2) two_sites_solution two_sites_paths
   \<and> (1::nat) < length [0, 4 :: int] \<and> (1::nat) \<noteq> depot_index
   \<and> (\<exists>out. after_solve (index_layout 2) [0, 4] (Some two_sites_solution) = Some (Extracted out)
          \<and> dom (vehicle_routes out) \<subseteq> {..<num_vehicles}
          \<and> count_list
               (concat (map (\<lambda>v. case vehicle_routes out v of None \<Rightarrow> [] | Some route \<Rightarrow> route)
                            [0..<num_vehicles])) 1 = 1)"
proof -
  have k: "(1::nat) < length [0, 4 :: int]" and d: "(1::nat) \<noteq> depot_index"
    by (simp_all add: depot_index_def)
  from each_site_on_one_route [OF two_sites_values_manager_ok two_sites_routes_ok k d]
    two_sites_values_manager_ok two_sites_routes_ok k d
  show ?thesis by blast
qed

theorem no_solution_signal_witness:
  "\<exists>s. problem_setup exact_ops (index_layout 2) two_sites = Inr s
       \<and> (\<lambda>m p. None) (setup_model s) params = (None :: assignment option)
       \<and> program exact_ops (index_layout 2) (\<lambda>m p. None) two_sites
           = Some (NoSolution [''No solution found.''])"
proof -
  from two_sites_setup obtain s where
    s: "problem_setup exact_ops (index_layout 2) two_sites = Inr s" ..
  have n: "(\<lambda>m p. None) (setup_model s) params = (None :: assignment option)" by simp
  from no_solution_signal [OF s n] s n show ?thesis by blast
qed

lemma negative_demand_setup:
  "\<not> isl (problem_setup exact_ops (index_layout 2) negative_demand_sites)"
proof -
  have b: "build_matrices exact_ops (load_data negative_demand_sites)
             = build_matrices exact_ops (load_data two_sites)"
    by (simp add: build_matrices_def load_data_def num_nodes_def negative_demand_sites_def
        two_sites_def)
  have w: "time_windows (load_data negative_demand_sites) = [(0, 240), (10, 120)]"
    and d: "demands (load_data negative_demand_sites) = [0, - 4]"
    and n: "num_nodes (load_data negative_demand_sites) = 2"
    by (simp_all add: load_data_def negative_demand_sites_def num_nodes_def)
  have tr: "evaluate_unary_transits (index_layout 2) (demand_callback (index_layout 2) [0, - 4])
     = Inr ((\<lambda>index. 0)(1 := - 4))"
    unfolding evaluate_unary_transits_def layout_indices
    by (simp add: demand_callback_def py_nth_def int64_def and_then_def index_layout_def
        depot_index_def fun_eq_iff)
  show ?thesis
    by (simp add: problem_setup_def Let_def b build_matrices_two_sites w d n tr
        two_sites_ranges create_manager_def depot_index_def and_then_def)
qed

text \<open>
  C6, as stated, fails: the table with a negative demand is malformed in the sense of
  the specification, no exception stops the program before the search, and the solver
  is called (here one that finds nothing).
\<close>

theorem malformed_instance_not_rejected:
  "spec_malformed (load_data negative_demand_sites) [[0, 0], [0, 0]]
   \<and> \<not> isl (problem_setup exact_ops (index_layout 2) negative_demand_sites)
   \<and> program exact_ops (index_layout 2) (\<lambda>m p. None) negative_demand_sites
       = Some (NoSolution [''No solution found.''])"
proof -
  have "spec_malformed (load_data negative_demand_sites) [[0, 0], [0, 0]]"
    by (simp add: spec_malformed_def load_data_def negative_demand_sites_def)
  moreover note negative_demand_setup
  moreover from negative_demand_setup
  have "program exact_ops (index_layout 2) (\<lambda>m p. None) negative_demand_sites
       = Some (NoSolution [''No solution found.''])"
    by (cases "problem_setup exact_ops (index_layout 2) negative_demand_sites")
      (simp_all add: program_def after_solve_def)
  ultimately show ?thesis by simp
qed

theorem inverted_window_stops_setup_witness:
  "build_matrices exact_ops (load_data inverted_window_sites)
     = Inr ([[PyInt 0, PyFloat 0], [PyFloat 0, PyInt 0]], [[0, 0], [0, 0]])
   \<and> depot_index < length inverted_window_sites
   \<and> evaluate_unary_transits (index_layout 2)
        (demand_callback (index_layout 2) (map demand inverted_window_sites))
       = Inr ((\<lambda>index. 0)(1 := 4))
   \<and> list_all (\<lambda>row. int64 (tw_start row) = Inr (tw_start row)
                      \<and> int64 (tw_end row) = Inr (tw_end row)) inverted_window_sites
   \<and> (\<exists>row \<in> set inverted_window_sites. tw_end row < tw_start row)
   \<and> time_window_loop (index_layout 2)
        (enumerate 0 (time_windows (load_data inverted_window_sites)))
        (\<lambda>index. (0, max_route_duration)) = Inl CPSolverFail
   \<and> problem_setup exact_ops (index_layout 2) inverted_window_sites = Inl CPSolverFail
   \<and> program exact_ops (index_layout 2) (\<lambda>m p. None) inverted_window_sites
       = Some (Raised CPSolverFail)"
proof -
  have b: "build_matrices exact_ops (load_data inverted_window_sites)
     = Inr ([[PyInt 0, PyFloat 0], [PyFloat 0, PyInt 0]], [[0, 0], [0, 0]])"
  proof -
    have "build_matrices exact_ops (load_data inverted_window_sites)
             = build_matrices exact_ops (load_data two_sites)"
      by (simp add: build_matrices_def load_data_def num_nodes_def inverted_window_sites_def
          two_sites_def)
    with build_matrices_two_sites show ?thesis by simp
  qed
  have n: "depot_index < length inverted_window_sites"
    by (simp add: depot_index_def inverted_window_sites_def)
  have d: "map demand inverted_window_sites = [0, 4]"
    by (simp add: inverted_window_sites_def)
  have tr: "evaluate_unary_transits (index_layout 2)
        (demand_callback (index_layout 2) (map demand inverted_window_sites))
       = Inr ((\<lambda>index. 0)(1 := 4))"
    by (simp add: d two_sites_transits)
  have fit: "\<forall>row \<in> set inverted_window_sites. int64 (tw_start row) = Inr (tw_start row)
                      \<and> int64 (tw_end row) = Inr (tw_end row)"
    by (simp add: inverted_window_sites_def int64_def)
  have inv: "\<exists>row \<in> set inverted_window_sites. tw_end row < tw_start row"
    by (simp add: inverted_window_sites_def)
  from inverted_window_stops_setup [OF b n tr fit inv, of "\<lambda>m p. None"] b n tr fit inv
  show ?thesis by (simp add: list_all_iff)
qed

end
